(* ===== verification/Prelude.thy ===== *)
theory Prelude
  imports Main "HOL-Library.Stream"
begin

text \<open>
  Shared vocabulary of the Curses-Arcade development (\<open>src/snake.py\<close>).
  \<^item> \<open>pos\<close>: a \<open>(row, col)\<close> tuple of Python ints;
  \<^item> \<open>error\<close>: the exceptions the program can raise, one constructor each;
  \<^item> \<open>('a, 's) exc\<close>: a Python statement sequence over a state \<open>'s\<close>.
    It returns a value and the new state, or raises an exception \<^emph>\<open>together with the
    state reached so far\<close>, since Python keeps the mutations made before a raise and a
    \<open>finally\<close> clause runs on that state;
  \<^item> \<open>efor\<close>: a Python \<open>for\<close> loop in that monad, \<open>on_field\<close>: a computation on
    one field of a larger state (the curses surface inside the game state);
  \<^item> the Python helpers the source uses: string repetition \<open>s * n\<close>, \<open>int(a / b)\<close>,
    and \<open>random.randint\<close>.
  The evaluation rules of the monad are collected in \<open>exc_simps\<close>.
\<close>

named_theorems exc_simps "evaluation rules of the state-exception monad"
named_theorems keeps_intros "frame rules: a computation leaves a view of the state unchanged"

type_synonym pos = "int \<times> int"

datatype error =
    OutOfBounds       \<comment> \<open>\<open>_curses.error\<close>: a write outside the window\<close>
  | CursesError       \<comment> \<open>\<open>_curses.error\<close>: a curses call before \<open>initscr\<close>, or \<open>endwin\<close> twice\<close>
  | SurfaceInitError  \<comment> \<open>\<open>initscr\<close> without a usable terminal\<close>
  | AssetNotFound     \<comment> \<open>\<open>FileNotFoundError\<close> for the title art\<close>
  | IndexError
  | KeyError
  | ValueError        \<comment> \<open>\<open>randint\<close> on an empty range\<close>
  | TypeError         \<comment> \<open>unpacking \<open>None\<close> with \<open>*\<close>\<close>
  | AttributeError    \<comment> \<open>a method call on \<open>None\<close>, or \<open>curses.LINES\<close> before \<open>initscr\<close>\<close>
  | Blocked           \<comment> \<open>a blocking \<open>getch\<close> with no key ever arriving\<close>

type_synonym ('a, 's) exc = "'s \<Rightarrow> (error \<times> 's) + ('a \<times> 's)"

definition ret :: "'a \<Rightarrow> ('a, 's) exc" where
  "ret a = (\<lambda>s. Inr (a, s))"

definition throw :: "error \<Rightarrow> ('a, 's) exc" where
  "throw e = (\<lambda>s. Inl (e, s))"

definition ebind :: "('a, 's) exc \<Rightarrow> ('a \<Rightarrow> ('b, 's) exc) \<Rightarrow> ('b, 's) exc" where
  "ebind m f = (\<lambda>s. case m s of Inl es \<Rightarrow> Inl es | Inr (a, s') \<Rightarrow> f a s')"

definition eget :: "('s \<Rightarrow> 'a) \<Rightarrow> ('a, 's) exc" where
  "eget f = (\<lambda>s. Inr (f s, s))"

definition emodify :: "('s \<Rightarrow> 's) \<Rightarrow> (unit, 's) exc" where
  "emodify f = (\<lambda>s. Inr ((), f s))"

definition raise_if :: "bool \<Rightarrow> error \<Rightarrow> (unit, 's) exc" where
  "raise_if b e = (if b then throw e else ret ())"

text \<open>\<open>for x in xs: body(x)\<close>: the body runs on each element in turn, and the first
  exception leaves the loop.\<close>

fun efor :: "('x \<Rightarrow> (unit, 's) exc) \<Rightarrow> 'x list \<Rightarrow> (unit, 's) exc" where
  "efor body [] = ret ()"
| "efor body (x # xs) = ebind (body x) (\<lambda>_. efor body xs)"

text \<open>A computation on one field of a larger state, with the field written back on both
  outcomes (the surface is changed even when a curses call raises half-way).\<close>

definition on_field ::
  "('t \<Rightarrow> 's) \<Rightarrow> (('s \<Rightarrow> 's) \<Rightarrow> 't \<Rightarrow> 't) \<Rightarrow> ('a, 's) exc \<Rightarrow> ('a, 't) exc" where
  "on_field get upd m = (\<lambda>t. case m (get t) of
       Inl (e, s') \<Rightarrow> Inl (e, upd (\<lambda>_. s') t)
     | Inr (a, s') \<Rightarrow> Inr (a, upd (\<lambda>_. s') t))"

text \<open>\<open>try: body finally: cleanup\<close>, applied to the outcome of the body: the
  cleanup runs on the state the body left, on both outcomes; an exception of the cleanup
  replaces the body's outcome.\<close>

fun finally_res :: "(error \<times> 's) + ('a \<times> 's) \<Rightarrow> (unit, 's) exc \<Rightarrow> (error \<times> 's) + ('a \<times> 's)" where
  "finally_res (Inl (e, s)) c =
     (case c s of Inl es' \<Rightarrow> Inl es' | Inr (_, s') \<Rightarrow> Inl (e, s'))"
| "finally_res (Inr (a, s)) c =
     (case c s of Inl es' \<Rightarrow> Inl es' | Inr (_, s') \<Rightarrow> Inr (a, s'))"

text \<open>The state a finished computation left, whatever its outcome.\<close>

fun final_state :: "(error \<times> 's) + ('a \<times> 's) \<Rightarrow> 's" where
  "final_state (Inl (_, s)) = s"
| "final_state (Inr (_, s)) = s"

text \<open>\<open>keeps f m\<close>: whatever its outcome, \<open>m\<close> leaves the view \<open>f\<close> of the state
  as it found it. Frame properties of the methods are proved with the rules of
  \<open>keeps_intros\<close>, one per combinator.\<close>

definition keeps :: "('s \<Rightarrow> 'k) \<Rightarrow> ('a, 's) exc \<Rightarrow> bool" where
  "keeps f m \<longleftrightarrow> (\<forall>s. f (final_state (m s)) = f s)"

subsection \<open>Python helpers\<close>

text \<open>\<open>s * n\<close> for a string and an int: \<open>n\<close> copies, none when \<open>n \<le> 0\<close>.\<close>

definition str_mul :: "string \<Rightarrow> int \<Rightarrow> string" where
  "str_mul s n = concat (replicate (nat n) s)"

text \<open>\<open>int(a / b)\<close> for ints with \<open>b > 0\<close>: true division, then truncation towards
  zero (not the floor of \<open>//\<close>). Exact for the small operands of the source.\<close>

definition trunc_div :: "int \<Rightarrow> int \<Rightarrow> int" where
  "trunc_div a b = (if 0 \<le> a then a div b else - ((- a) div b))"

text \<open>\<open>random.randint(a, b)\<close>: a value of \<open>[a, b]\<close> drawn from the generator's state,
  here a stream of raw draws; \<open>ValueError\<close> (\<open>empty range\<close>) when \<open>b < a\<close>.
  Every value of the range is the outcome of some draw (\<open>randint_onto\<close>).\<close>

definition randint :: "int \<Rightarrow> int \<Rightarrow> (int, nat stream) exc" where
  "randint a b = (\<lambda>r. if b < a then Inl (ValueError, r)
                      else Inr (a + int (shd r) mod (b - a + 1), stl r))"

subsection \<open>Evaluation rules\<close>

lemma ret_apply [exc_simps]: "ret a s = Inr (a, s)"
  by (simp add: ret_def)

lemma throw_apply [exc_simps]: "throw e s = Inl (e, s)"
  by (simp add: throw_def)

lemma ebind_apply [exc_simps]:
  "ebind m f s = (case m s of Inl es \<Rightarrow> Inl es | Inr (a, s') \<Rightarrow> f a s')"
  by (simp add: ebind_def)

lemma eget_apply [exc_simps]: "eget f s = Inr (f s, s)"
  by (simp add: eget_def)

lemma emodify_apply [exc_simps]: "emodify f s = Inr ((), f s)"
  by (simp add: emodify_def)

lemma raise_if_apply [exc_simps]:
  "raise_if b e s = (if b then Inl (e, s) else Inr ((), s))"
  by (simp add: raise_if_def exc_simps)

lemma on_field_apply [exc_simps]:
  "on_field get upd m t = (case m (get t) of
       Inl (e, s') \<Rightarrow> Inl (e, upd (\<lambda>_. s') t)
     | Inr (a, s') \<Rightarrow> Inr (a, upd (\<lambda>_. s') t))"
  by (simp add: on_field_def)

lemma ebind_Inr [simp]: "m s = Inr (a, s') \<Longrightarrow> ebind m f s = f a s'"
  by (simp add: ebind_def)

lemma ebind_Inl [simp]: "m s = Inl es \<Longrightarrow> ebind m f s = Inl es"
  by (simp add: ebind_def)

lemma ebind_eq_Inr:
  "ebind m f s = Inr r \<longleftrightarrow> (\<exists>a s'. m s = Inr (a, s') \<and> f a s' = Inr r)"
  by (auto simp: ebind_def split: sum.splits prod.splits)

lemma ebind_eq_Inl:
  "ebind m f s = Inl es \<longleftrightarrow>
     m s = Inl es \<or> (\<exists>a s'. m s = Inr (a, s') \<and> f a s' = Inl es)"
  by (auto simp: ebind_def split: sum.splits prod.splits)

lemma efor_append:
  "efor body (xs @ ys) = ebind (efor body xs) (\<lambda>_. efor body ys)"
  by (induction xs) (auto simp: fun_eq_iff exc_simps split: sum.splits prod.splits)

text \<open>A loop whose every body step keeps a property of the state keeps it on both
  outcomes: the usual way facts about a \<open>for\<close> loop are proved.\<close>

lemma efor_invariant:
  assumes "P s"
    and step: "\<And>x s r. x \<in> set xs \<Longrightarrow> P s \<Longrightarrow> body x s = r \<Longrightarrow>
                 (case r of Inl (_, s') \<Rightarrow> P s' | Inr (_, s') \<Rightarrow> P s')"
  shows "case efor body xs s of Inl (_, s') \<Rightarrow> P s' | Inr (_, s') \<Rightarrow> P s'"
  using assms
proof (induction xs arbitrary: s)
  case Nil
  then show ?case by (simp add: exc_simps)
next
  case (Cons x xs)
  from Cons.prems(2) [of x s "body x s"] Cons.prems(1)
  have hd: "case body x s of Inl (_, s') \<Rightarrow> P s' | Inr (_, s') \<Rightarrow> P s'" by simp
  have tl: "case efor body xs s' of Inl (_, s'') \<Rightarrow> P s'' | Inr (_, s'') \<Rightarrow> P s''"
    if "P s'" for s'
    using that by (rule Cons.IH) (auto intro: Cons.prems(2))
  show ?case
  proof (cases "body x s")
    case (Inl es)
    with hd show ?thesis by (cases es) (simp add: exc_simps)
  next
    case (Inr as)
    then obtain a s' where eq: "body x s = Inr (a, s')" by (cases as) auto
    with hd have "P s'" by simp
    with tl [OF this] eq show ?thesis by (simp add: exc_simps)
  qed
qed

lemma str_mul_length [simp]: "length (str_mul s n) = length s * nat n"
  by (simp add: str_mul_def length_concat sum_list_replicate)

lemma str_mul_char [simp]: "str_mul [c] n = replicate (nat n) c"
  by (simp add: str_mul_def concat_replicate_single)

lemma trunc_div_nonneg [simp]: "0 \<le> a \<Longrightarrow> trunc_div a b = a div b"
  by (simp add: trunc_div_def)

lemma randint_Inr:
  "randint a b r = Inr (x, r') \<longleftrightarrow>
     a \<le> b \<and> x = a + int (shd r) mod (b - a + 1) \<and> r' = stl r"
  by (auto simp: randint_def)

lemma randint_range: "randint a b r = Inr (x, r') \<Longrightarrow> a \<le> x \<and> x \<le> b"
proof -
  assume "randint a b r = Inr (x, r')"
  then have "a \<le> b" and x: "x = a + int (shd r) mod (b - a + 1)"
    by (auto simp: randint_Inr)
  then have pos: "0 < b - a + 1" by simp
  have "0 \<le> int (shd r) mod (b - a + 1)" using pos by (rule pos_mod_sign)
  moreover have "int (shd r) mod (b - a + 1) < b - a + 1" using pos by (rule pos_mod_bound)
  ultimately show ?thesis using x by linarith
qed

lemma randint_empty: "randint a b r = Inl (e, r') \<longleftrightarrow> b < a \<and> e = ValueError \<and> r' = r"
  by (auto simp: randint_def)

lemma randint_onto:
  assumes "a \<le> x" "x \<le> b"
  shows "randint a b (nat (x - a) ## r) = Inr (x, r)"
  using assms by (simp add: randint_def)

subsection \<open>Frame rules\<close>

lemma keeps_ret [keeps_intros]: "keeps f (ret a)"
  by (simp add: keeps_def ret_def)

lemma keeps_throw [keeps_intros]: "keeps f (throw e)"
  by (simp add: keeps_def throw_def)

lemma keeps_eget [keeps_intros]: "keeps f (eget g)"
  by (simp add: keeps_def eget_def)

lemma keeps_emodify [keeps_intros]: "(\<And>s. f (h s) = f s) \<Longrightarrow> keeps f (emodify h)"
  by (simp add: keeps_def emodify_def)

lemma keeps_raise_if [keeps_intros]: "keeps f (raise_if b e)"
  by (simp add: keeps_def raise_if_def ret_def throw_def)

lemma keeps_ebind [keeps_intros]:
  "keeps f m \<Longrightarrow> (\<And>a. keeps f (k a)) \<Longrightarrow> keeps f (ebind m k)"
  unfolding keeps_def
proof (intro allI)
  fix s
  assume m: "\<forall>s. f (final_state (m s)) = f s" and k: "\<And>a. \<forall>s. f (final_state (k a s)) = f s"
  show "f (final_state (ebind m k s)) = f s"
  proof (cases "m s")
    case (Inl es)
    then obtain e s' where eq: "m s = Inl (e, s')" by (cases es) auto
    from m have "f (final_state (m s)) = f s" by blast
    with eq have "f s' = f s" by simp
    with eq show ?thesis by simp
  next
    case (Inr as)
    then obtain a s' where eq: "m s = Inr (a, s')" by (cases as) auto
    from m have "f (final_state (m s)) = f s" by blast
    with eq have "f s' = f s" by simp
    moreover from k have "f (final_state (k a s')) = f s'" by blast
    ultimately show ?thesis using eq by simp
  qed
qed

lemma keeps_if [keeps_intros]: "keeps f a \<Longrightarrow> keeps f b \<Longrightarrow> keeps f (if c then a else b)"
  by simp

lemma keeps_case_option [keeps_intros]:
  "keeps f a \<Longrightarrow> (\<And>x. keeps f (b x)) \<Longrightarrow> keeps f (case opt of None \<Rightarrow> a | Some x \<Rightarrow> b x)"
  by (simp split: option.split)

lemma keeps_case_prod [keeps_intros]:
  "(\<And>x y. keeps f (k x y)) \<Longrightarrow> keeps f (case p of (x, y) \<Rightarrow> k x y)"
  by (simp split: prod.split)

lemma keeps_let [keeps_intros]: "(\<And>x. keeps f (k x)) \<Longrightarrow> keeps f (Let v k)"
  by simp

lemma keeps_efor [keeps_intros]: "(\<And>x. keeps f (body x)) \<Longrightarrow> keeps f (efor body xs)"
  by (induction xs) (auto intro: keeps_ebind keeps_ret)

lemma keeps_on_field [keeps_intros]:
  assumes "keeps h m" and "\<And>t. f t = h (get t)" and "\<And>s t. f (upd (\<lambda>_. s) t) = h s"
  shows "keeps f (on_field get upd m)"
  unfolding keeps_def
proof
  fix t
  from assms(1) have m: "h (final_state (m (get t))) = h (get t)" by (simp add: keeps_def)
  have "final_state (on_field get upd m t) = upd (\<lambda>_. final_state (m (get t))) t"
    by (simp add: on_field_def split: sum.split prod.split)
  then show "f (final_state (on_field get upd m t)) = f t"
    using m assms(2,3) by simp
qed

lemma keeps_on_field_other [keeps_intros]:
  assumes "\<And>s t. f (upd (\<lambda>_. s) t) = f t"
  shows "keeps f (on_field get upd m)"
  using assms unfolding keeps_def on_field_def
  by (auto split: sum.splits prod.splits)

lemma keeps_pair:
  "keeps f m \<Longrightarrow> keeps h m \<Longrightarrow> keeps (\<lambda>s. (f s, h s)) m"
  by (simp add: keeps_def)

lemma keeps_comp: "keeps f m \<Longrightarrow> keeps (\<lambda>s. h (f s)) m"
  by (simp add: keeps_def)

lemma final_state_finally: "final_state (finally_res r c) = final_state (c (final_state r))"
  by (cases r rule: final_state.cases) (auto split: sum.split prod.split)

lemma keepsD: "keeps f m \<Longrightarrow> m s = r \<Longrightarrow> f (final_state r) = f s"
  by (auto simp: keeps_def)

lemma keeps_Inr: "keeps f m \<Longrightarrow> m s = Inr (a, s') \<Longrightarrow> f s' = f s"
  by (drule keepsD [of f m s "Inr (a, s')"]) simp_all

end
