(* ===== verification/Surface.thy ===== *)
theory Surface
  imports Prelude
begin

text \<open>
  The terminal surface: the part of the \<open>curses\<close> library the program calls (the
  spec's external collaborator \<open>TerminalSurface\<close>, spec section 6). It is a library,
  not code of the repository, so it is modelled from the spec's contract:
  \<^item> the record \<open>surface\<close> holds the terminal's size (\<open>curses.LINES\<close>,
    \<open>curses.COLS\<close>), whether a terminal is available, the window buffer
    (\<open>stdscr\<close>'s cells) and the physical screen (what the last \<open>refresh\<close> showed),
    the tty modes (cbreak, echo, keypad, nodelay, cursor visibility, colours) and the
    keys typed and not yet read;
  \<^item> every write of a cell outside \<open>[0, LINES) \<times> [0, COLS)\<close> raises, with no
    clipping and no wrapping (spec sections 4.1 and 7);
  \<^item> \<open>getch\<close> in nodelay mode returns \<open>-1\<close> when no key is pending.
  The lemmas give each write's effect on the buffer cell by cell, the condition under
  which it raises, and the frame: a write never changes the tty modes.
\<close>

type_synonym cell = "char \<times> nat"  \<comment> \<open>glyph and attribute (colour pair bits)\<close>

record surface =
  lines :: int
  cols :: int
  tty :: bool                         \<comment> \<open>a usable terminal is attached\<close>
  initialised :: bool                 \<comment> \<open>\<open>initscr\<close> has run (never reset)\<close>
  in_curses :: bool                   \<comment> \<open>between \<open>initscr\<close> and \<open>endwin\<close>\<close>
  buf :: "pos \<Rightarrow> cell option"         \<comment> \<open>the window buffer\<close>
  shown :: "pos \<Rightarrow> cell option"       \<comment> \<open>the physical screen\<close>
  cbreak_on :: bool
  echo_on :: bool
  keypad_on :: bool
  nodelay_on :: bool
  cursor_on :: bool
  colour_on :: bool
  pairs :: "nat \<Rightarrow> (nat \<times> nat) option"
  pending :: "int list"               \<comment> \<open>keys typed and not yet read\<close>

text \<open>The curses key codes the program maps, and the colours it registers.\<close>

definition KEY_DOWN :: int where "KEY_DOWN = 258"
definition KEY_UP :: int where "KEY_UP = 259"
definition KEY_LEFT :: int where "KEY_LEFT = 260"
definition KEY_RIGHT :: int where "KEY_RIGHT = 261"
definition COLOR_BLACK :: nat where "COLOR_BLACK = 0"
definition COLOR_GREEN :: nat where "COLOR_GREEN = 2"

text \<open>\<open>curses.color_pair(n)\<close>: the attribute bits of pair \<open>n\<close>.\<close>

definition color_pair :: "nat \<Rightarrow> nat" where
  "color_pair n = n * 256"

text \<open>A terminal in cooked mode, as before \<open>initscr\<close> and after \<open>endwin\<close>.\<close>

definition cooked :: "surface \<Rightarrow> bool" where
  "cooked t \<longleftrightarrow> \<not> in_curses t \<and> \<not> cbreak_on t \<and> echo_on t"

definition in_window :: "surface \<Rightarrow> pos \<Rightarrow> bool" where
  "in_window t p \<longleftrightarrow> 0 \<le> fst p \<and> fst p < lines t \<and> 0 \<le> snd p \<and> snd p < cols t"

text \<open>What a window write or a refresh leaves alone: the size, the typed keys and the
  tty modes; and the tty modes alone, which \<open>getch\<close> keeps too.\<close>

definition surf_frame :: "surface \<Rightarrow> int \<times> int \<times> int list \<times> bool \<times> bool \<times> bool \<times> bool \<times> bool" where
  "surf_frame t = (lines t, cols t, pending t, initialised t, in_curses t, cbreak_on t, echo_on t,
                   nodelay_on t)"

definition tty_modes :: "surface \<Rightarrow> bool \<times> bool \<times> bool \<times> bool" where
  "tty_modes t = (initialised t, in_curses t, cbreak_on t, echo_on t)"

subsection \<open>Set-up and tear-down\<close>

definition initscr :: "(unit, surface) exc" where
  "initscr = (\<lambda>t. if \<not> tty t then Inl (SurfaceInitError, t)
                  else Inr ((), t\<lparr>initialised := True, in_curses := True,
                                  buf := Map.empty, shown := Map.empty\<rparr>))"

text \<open>A module-level curses function raises unless \<open>initscr\<close> has run once.\<close>

definition need_init :: "(unit, surface) exc" where
  "need_init = ebind (eget initialised) (\<lambda>b. raise_if (\<not> b) CursesError)"

definition curses_call :: "(surface \<Rightarrow> surface) \<Rightarrow> (unit, surface) exc" where
  "curses_call f = ebind need_init (\<lambda>_. emodify f)"

definition noecho :: "(unit, surface) exc" where
  "noecho = curses_call (\<lambda>t. t\<lparr>echo_on := False\<rparr>)"
definition echo :: "(unit, surface) exc" where
  "echo = curses_call (\<lambda>t. t\<lparr>echo_on := True\<rparr>)"
definition cbreak :: "(unit, surface) exc" where
  "cbreak = curses_call (\<lambda>t. t\<lparr>cbreak_on := True\<rparr>)"
definition nocbreak :: "(unit, surface) exc" where
  "nocbreak = curses_call (\<lambda>t. t\<lparr>cbreak_on := False\<rparr>)"
definition curs_set :: "bool \<Rightarrow> (unit, surface) exc" where
  "curs_set b = curses_call (\<lambda>t. t\<lparr>cursor_on := b\<rparr>)"
definition start_color :: "(unit, surface) exc" where
  "start_color = curses_call (\<lambda>t. t\<lparr>colour_on := True\<rparr>)"
definition init_pair :: "nat \<Rightarrow> nat \<Rightarrow> nat \<Rightarrow> (unit, surface) exc" where
  "init_pair n f b = curses_call (\<lambda>t. t\<lparr>pairs := (pairs t)(n \<mapsto> (f, b))\<rparr>)"

text \<open>\<open>endwin\<close> leaves curses mode; a second call, outside curses mode, raises.\<close>

definition endwin :: "(unit, surface) exc" where
  "endwin = ebind need_init (\<lambda>_. ebind (eget in_curses) (\<lambda>b.
              ebind (raise_if (\<not> b) CursesError) (\<lambda>_. emodify (\<lambda>t. t\<lparr>in_curses := False\<rparr>))))"

text \<open>Window methods (\<open>stdscr.keypad\<close>, \<open>stdscr.nodelay\<close>) act on the window object
  and need no check.\<close>

definition keypad :: "bool \<Rightarrow> (unit, surface) exc" where
  "keypad b = emodify (\<lambda>t. t\<lparr>keypad_on := b\<rparr>)"
definition nodelay :: "bool \<Rightarrow> (unit, surface) exc" where
  "nodelay b = emodify (\<lambda>t. t\<lparr>nodelay_on := b\<rparr>)"

subsection \<open>The cell buffer\<close>

text \<open>The cells a string occupies when written from \<open>(y, x)\<close>.\<close>

fun put_str :: "int \<Rightarrow> int \<Rightarrow> string \<Rightarrow> nat \<Rightarrow> (pos \<Rightarrow> cell option) \<Rightarrow> (pos \<Rightarrow> cell option)" where
  "put_str y x [] a m = m"
| "put_str y x (c # cs) a m = put_str y (x + 1) cs a (m((y, x) \<mapsto> (c, a)))"

definition addstr :: "int \<Rightarrow> int \<Rightarrow> string \<Rightarrow> nat \<Rightarrow> (unit, surface) exc" where
  "addstr y x s a = (\<lambda>t.
     if 0 \<le> y \<and> y < lines t \<and> 0 \<le> x \<and> x + int (length s) \<le> cols t
     then Inr ((), t\<lparr>buf := put_str y x s a (buf t)\<rparr>)
     else Inl (OutOfBounds, t))"

definition addch :: "int \<Rightarrow> int \<Rightarrow> char \<Rightarrow> (unit, surface) exc" where
  "addch y x c = addstr y x [c] 0"

definition clear :: "(unit, surface) exc" where
  "clear = emodify (\<lambda>t. t\<lparr>buf := Map.empty\<rparr>)"

definition refresh :: "(unit, surface) exc" where
  "refresh = emodify (\<lambda>t. t\<lparr>shown := buf t\<rparr>)"

text \<open>\<open>stdscr.getch()\<close>: the next pending key; with none pending, \<open>-1\<close> in nodelay
  mode, and otherwise a wait that never ends, reported as \<open>Blocked\<close> (the play loop
  turns it into a run that never returns). The pending keys are those typed before the
  read: a key typed later is not modelled, so a run is the one of a player who types
  no more keys.\<close>

definition getch :: "(int, surface) exc" where
  "getch = (\<lambda>t. case pending t of
       k # ks \<Rightarrow> Inr (k, t\<lparr>pending := ks\<rparr>)
     | [] \<Rightarrow> if nodelay_on t then Inr (-1, t) else Inl (Blocked, t))"

subsection \<open>A concrete terminal\<close>

text \<open>A 24 x 80 terminal in cooked mode with the keys \<open>ks\<close> typed, for the witnesses.\<close>

definition demo_term :: "int list \<Rightarrow> surface" where
  "demo_term ks = \<lparr>lines = 24, cols = 80, tty = True, initialised = False, in_curses = False,
     buf = Map.empty, shown = Map.empty, cbreak_on = False, echo_on = True, keypad_on = False,
     nodelay_on = False, cursor_on = True, colour_on = False, pairs = Map.empty, pending = ks\<rparr>"

subsection \<open>Lemmas\<close>

lemma put_str_cell:
  "put_str y x s a m p =
     (if fst p = y \<and> x \<le> snd p \<and> snd p < x + int (length s)
      then Some (s ! nat (snd p - x), a) else m p)"
proof (induction s arbitrary: x m)
  case Nil
  then show ?case by auto
next
  case (Cons c cs)
  show ?case
  proof (cases "fst p = y \<and> snd p = x")
    case True
    then have "put_str y (x + 1) cs a (m((y, x) \<mapsto> (c, a))) p = Some (c, a)"
      by (simp add: Cons.IH prod_eq_iff)
    with True show ?thesis by simp
  next
    case False
    then have "fst p = y \<and> x \<le> snd p \<and> snd p < x + int (length (c # cs)) \<longleftrightarrow>
               fst p = y \<and> x + 1 \<le> snd p \<and> snd p < x + 1 + int (length cs)"
      by auto
    moreover have "fst p = y \<and> x + 1 \<le> snd p \<Longrightarrow>
        (c # cs) ! nat (snd p - x) = cs ! nat (snd p - (x + 1))"
    proof -
      assume "fst p = y \<and> x + 1 \<le> snd p"
      then have "nat (snd p - x) = Suc (nat (snd p - (x + 1)))" by (simp add: Suc_nat_eq_nat_zadd1)
      then show ?thesis by simp
    qed
    moreover have "(m((y, x) \<mapsto> (c, a))) p = m p"
      using False by (auto simp: prod_eq_iff)
    ultimately show ?thesis using False by (simp add: Cons.IH)
  qed
qed

lemma in_window_frame [simp]:
  "in_window (t\<lparr>buf := m\<rparr>) p = in_window t p"
  "in_window (t\<lparr>shown := m\<rparr>) p = in_window t p"
  "in_window (t\<lparr>pending := ks\<rparr>) p = in_window t p"
  by (simp_all add: in_window_def)

lemma put_str_outside [simp]:
  "fst p \<noteq> y \<Longrightarrow> put_str y x s a m p = m p"
  by (simp add: put_str_cell)

lemma addstr_Inr:
  "addstr y x s a t = Inr (u, t') \<longleftrightarrow>
     0 \<le> y \<and> y < lines t \<and> 0 \<le> x \<and> x + int (length s) \<le> cols t \<and>
     t' = t\<lparr>buf := put_str y x s a (buf t)\<rparr>"
  by (auto simp: addstr_def)

lemma addstr_Inl:
  "addstr y x s a t = Inl (e, t') \<longleftrightarrow>
     \<not> (0 \<le> y \<and> y < lines t \<and> 0 \<le> x \<and> x + int (length s) \<le> cols t) \<and>
     e = OutOfBounds \<and> t' = t"
  by (auto simp: addstr_def)

lemma addch_Inr:
  "addch y x c t = Inr (u, t') \<longleftrightarrow>
     in_window t (y, x) \<and> t' = t\<lparr>buf := (buf t)((y, x) \<mapsto> (c, 0))\<rparr>"
  by (auto simp: addch_def addstr_Inr in_window_def)

lemma addch_eq:
  "addch y x c t = (if in_window t (y, x) then Inr ((), t\<lparr>buf := (buf t)((y, x) \<mapsto> (c, 0))\<rparr>)
                    else Inl (OutOfBounds, t))"
  by (auto simp: addch_def addstr_def in_window_def)

lemma addch_Inl:
  "addch y x c t = Inl (e, t') \<longleftrightarrow> \<not> in_window t (y, x) \<and> e = OutOfBounds \<and> t' = t"
  by (auto simp: addch_def addstr_Inl in_window_def)

lemma getch_nodelay:
  "nodelay_on t \<Longrightarrow> \<exists>k t'. getch t = Inr (k, t') \<and> t' = t\<lparr>pending := tl (pending t)\<rparr>"
  by (auto simp: getch_def split: list.splits)

lemma keeps_addstr [keeps_intros]: "keeps surf_frame (addstr y x s a)"
  by (simp add: keeps_def addstr_def surf_frame_def)

lemma keeps_addch [keeps_intros]: "keeps surf_frame (addch y x c)"
  by (simp add: addch_def keeps_addstr)

lemma keeps_clear [keeps_intros]: "keeps surf_frame clear"
  by (simp add: keeps_def clear_def emodify_def surf_frame_def)

lemma keeps_refresh [keeps_intros]: "keeps surf_frame refresh"
  by (simp add: keeps_def refresh_def emodify_def surf_frame_def)

lemma keeps_getch [keeps_intros]: "keeps tty_modes getch"
  by (simp add: keeps_def getch_def tty_modes_def split: list.split)

lemma keeps_getch_nodelay [keeps_intros]: "keeps nodelay_on getch"
  by (simp add: keeps_def getch_def split: list.split)

lemma keeps_clear_nodelay [keeps_intros]: "keeps nodelay_on clear"
  by (simp add: keeps_def clear_def emodify_def)

lemma keeps_addch_nodelay [keeps_intros]: "keeps nodelay_on (addch y x c)"
  by (simp add: keeps_def addch_def addstr_def)

lemma keeps_refresh_nodelay [keeps_intros]: "keeps nodelay_on refresh"
  by (simp add: keeps_def refresh_def emodify_def)

lemma keeps_clear_modes [keeps_intros]: "keeps tty_modes clear"
  by (simp add: keeps_def tty_modes_def clear_def emodify_def)

lemma keeps_addch_modes [keeps_intros]: "keeps tty_modes (addch y x c)"
  by (simp add: keeps_def tty_modes_def addch_def addstr_def)

lemma keeps_refresh_modes [keeps_intros]: "keeps tty_modes refresh"
  by (simp add: keeps_def tty_modes_def refresh_def emodify_def)

end
