(* ===== verification/Snake.thy ===== *)
theory Snake
  imports Surface "HOL-Library.Product_Lexorder"
begin

text \<open>
  The snake game: class \<open>Snake\<close> of \<open>src/snake.py\<close> (lines 102--191).
  The record \<open>snake_game\<close> holds the object's fields (\<open>snake\<close>, \<open>food\<close>,
  \<open>stdscr\<close>, \<open>facing\<close>, \<open>score\<close>) together with the two pieces of global state its
  methods touch: the curses surface and the state of the \<open>random\<close> module.
  Every method is a computation of \<open>('a, snake_game) exc\<close>:
  \<open>create_screen\<close>, \<open>add_tuples\<close>, \<open>update_logic\<close> (split along the code's
  segments: \<open>ensure_food\<close>, \<open>read_input\<close>, \<open>move\<close>, \<open>eat\<close>),
  \<open>draw_screen\<close>, \<open>close_screen\<close>, and the loop of \<open>play\<close> as a
  \<^theory_text>\<open>partial_function (option)\<close>, \<open>None\<close> when the loop runs forever.
\<close>

record snake_game =
  snake :: "pos list"
  food :: "pos option"
  stdscr :: bool                  \<comment> \<open>\<open>self.stdscr\<close> is the window, not \<open>None\<close>\<close>
  facing :: string
  score :: int
  surf :: surface                 \<comment> \<open>the \<open>curses\<close> module and its window\<close>
  rng :: "nat stream"             \<comment> \<open>the \<open>random\<close> module's state\<close>

definition FRAMERATE :: nat where "FRAMERATE = 6"
definition SNAKE_CHAR :: char where "SNAKE_CHAR = CHR ''#''"
definition FOOD_CHAR :: char where "FOOD_CHAR = CHR ''*''"

text \<open>\<open>Snake.__init__\<close>, on the surface and random state the process has.\<close>

definition snake_init :: "surface \<Rightarrow> nat stream \<Rightarrow> snake_game" where
  "snake_init t r = \<lparr>snake = [(0, 0)], food = None, stdscr = False, facing = ''right'',
                      score = 0, surf = t, rng = r\<rparr>"

subsection \<open>Access to the surface and the random module\<close>

definition on_surf :: "('a, surface) exc \<Rightarrow> ('a, snake_game) exc" where
  "on_surf m = on_field surf surf_update m"

definition on_rng :: "('a, nat stream) exc \<Rightarrow> ('a, snake_game) exc" where
  "on_rng m = on_field rng rng_update m"

text \<open>A method call on \<open>self.stdscr\<close>: \<open>AttributeError\<close> while it is \<open>None\<close>.\<close>

definition win :: "('a, surface) exc \<Rightarrow> ('a, snake_game) exc" where
  "win m = ebind (eget stdscr) (\<lambda>w. if w then on_surf m else throw AttributeError)"

text \<open>\<open>curses.LINES\<close> and \<open>curses.COLS\<close> exist once \<open>initscr\<close> has run.\<close>

definition curses_LINES :: "(int, snake_game) exc" where
  "curses_LINES = ebind (eget (initialised \<circ> surf)) (\<lambda>b.
     if b then eget (lines \<circ> surf) else throw AttributeError)"

definition curses_COLS :: "(int, snake_game) exc" where
  "curses_COLS = ebind (eget (initialised \<circ> surf)) (\<lambda>b.
     if b then eget (cols \<circ> surf) else throw AttributeError)"

subsection \<open>The methods\<close>

definition create_screen :: "(unit, snake_game) exc" where
  "create_screen =
     ebind (on_surf initscr) (\<lambda>_.
     ebind (emodify (\<lambda>g. g\<lparr>stdscr := True\<rparr>)) (\<lambda>_.
     ebind (win (keypad True)) (\<lambda>_.
     ebind (win (nodelay True)) (\<lambda>_.
     ebind (on_surf noecho) (\<lambda>_.
     ebind (on_surf cbreak) (\<lambda>_.
     on_surf (curs_set False)))))))"

definition add_tuples :: "pos \<Rightarrow> pos \<Rightarrow> pos" where
  "add_tuples a b = (fst a + fst b, snd a + snd b)"

definition keypress_movement_mapping :: "int \<Rightarrow> string option" where
  "keypress_movement_mapping =
     [KEY_LEFT \<mapsto> ''left'', KEY_RIGHT \<mapsto> ''right'', KEY_UP \<mapsto> ''up'', KEY_DOWN \<mapsto> ''down'']"

definition directional_mapping :: "string \<Rightarrow> pos option" where
  "directional_mapping =
     [''left'' \<mapsto> (0, -1), ''right'' \<mapsto> (0, 1), ''up'' \<mapsto> (-1, 0), ''down'' \<mapsto> (1, 0)]"

text \<open>\<open>(randint(0, curses.LINES - 1), randint(0, curses.COLS - 1))\<close>, left to right.\<close>

definition random_pos :: "(pos, snake_game) exc" where
  "random_pos =
     ebind curses_LINES (\<lambda>l. ebind (on_rng (randint 0 (l - 1))) (\<lambda>y.
     ebind curses_COLS (\<lambda>c. ebind (on_rng (randint 0 (c - 1))) (\<lambda>x. ret (y, x)))))"

text \<open>Lines 144--145: place the food when there is none.\<close>

definition ensure_food :: "(unit, snake_game) exc" where
  "ensure_food = ebind (eget food) (\<lambda>f.
     if f = None then ebind random_pos (\<lambda>p. emodify (\<lambda>g. g\<lparr>food := Some p\<rparr>)) else ret ())"

text \<open>Lines 147--149: at most one key per tick; an unmapped key (or \<open>-1\<close>) changes nothing.\<close>

definition read_input :: "(unit, snake_game) exc" where
  "read_input = ebind (win getch) (\<lambda>k.
     case keypress_movement_mapping k of
       Some d \<Rightarrow> emodify (\<lambda>g. g\<lparr>facing := d\<rparr>)
     | None \<Rightarrow> ret ())"

text \<open>Lines 151--159: the head moves one cell if the new cell passes the code's bound
  check \<open>0 <= y < LINES and 0 < x <= COLS\<close>; the result says whether it did. The
  pre-move head is returned as well, for line 161.\<close>

definition in_bounds :: "int \<Rightarrow> int \<Rightarrow> pos \<Rightarrow> bool" where
  "in_bounds l c p \<longleftrightarrow> 0 \<le> fst p \<and> fst p < l \<and> 0 < snd p \<and> snd p \<le> c"

text \<open>Line 155 as Python evaluates it: each chained comparison stops at its first false
  link and \<open>and\<close> at a false left side, so \<open>curses.LINES\<close> is read only when
  \<open>0 <= y\<close> holds and \<open>curses.COLS\<close> only when the row test and \<open>0 < x\<close> hold.\<close>

definition bound_check :: "pos \<Rightarrow> (bool, snake_game) exc" where
  "bound_check p =
     (if \<not> 0 \<le> fst p then ret False else
      ebind curses_LINES (\<lambda>l.
      if \<not> fst p < l then ret False else
      if \<not> 0 < snd p then ret False else
      ebind curses_COLS (\<lambda>c. ret (snd p \<le> c))))"

definition move :: "(bool \<times> pos, snake_game) exc" where
  "move = ebind (eget snake) (\<lambda>sn.
     if sn = [] then throw IndexError else
     ebind (eget facing) (\<lambda>d.
     case directional_mapping d of
       None \<Rightarrow> throw KeyError
     | Some delta \<Rightarrow>
         let new_pos = add_tuples (last sn) delta in
         ebind (bound_check new_pos) (\<lambda>ok.
         if ok
         then ebind (emodify (\<lambda>g. g\<lparr>snake := tl (sn @ [new_pos])\<rparr>)) (\<lambda>_. ret (True, last sn))
         else ret (False, last sn))))"

text \<open>Lines 161--163: if the pre-move head was on the food, the (new) tail segment is
  duplicated and the food placed again.\<close>

definition eat :: "pos \<Rightarrow> (unit, snake_game) exc" where
  "eat head = ebind (eget food) (\<lambda>f.
     if Some head = f
     then ebind (emodify (\<lambda>g. g\<lparr>snake := hd (snake g) # snake g\<rparr>)) (\<lambda>_.
          ebind random_pos (\<lambda>p. emodify (\<lambda>g. g\<lparr>food := Some p\<rparr>)))
     else ret ())"

definition update_logic :: "(bool, snake_game) exc" where
  "update_logic =
     ebind ensure_food (\<lambda>_.
     ebind read_input (\<lambda>_.
     ebind move (\<lambda>(moved, head).
     if moved then ebind (eat head) (\<lambda>_. ret True) else ret False)))"

text \<open>\<open>_draw_screen\<close>: clear, a snake glyph per segment (a tuple is always truthy, so
  the \<open>if square\<close> never skips), then the food glyph; \<open>*None\<close> raises \<open>TypeError\<close>.\<close>

definition draw_screen :: "(unit, snake_game) exc" where
  "draw_screen =
     ebind (win clear) (\<lambda>_.
     ebind (eget snake) (\<lambda>sn.
     ebind (efor (\<lambda>sq. win (addch (fst sq) (snd sq) SNAKE_CHAR)) sn) (\<lambda>_.
     ebind (eget stdscr) (\<lambda>w.
     if \<not> w then throw AttributeError else
     ebind (eget food) (\<lambda>f.
     case f of
       None \<Rightarrow> throw TypeError
     | Some p \<Rightarrow> on_surf (addch (fst p) (snd p) FOOD_CHAR))))))"

definition close_screen :: "(unit, snake_game) exc" where
  "close_screen =
     ebind (on_surf nocbreak) (\<lambda>_.
     ebind (win (keypad False)) (\<lambda>_.
     ebind (on_surf echo) (\<lambda>_.
     on_surf endwin)))"

text \<open>One pass of the \<open>while playing\<close> loop: update, draw, refresh (the
  \<open>time.sleep\<close> has no effect on the state). It returns the value of \<open>playing\<close>.\<close>

definition tick :: "(bool, snake_game) exc" where
  "tick = ebind update_logic (\<lambda>playing.
     ebind draw_screen (\<lambda>_. ebind (win refresh) (\<lambda>_. ret playing)))"

text \<open>The \<open>while playing\<close> loop. A pass that waits in a blocking \<open>getch\<close> for a key
  that never comes (the surface's \<open>Blocked\<close>) never returns, and neither does the
  loop: \<open>None\<close>, like a loop that runs forever.\<close>

partial_function (option) game_loop ::
  "snake_game \<Rightarrow> ((error \<times> snake_game) + (unit \<times> snake_game)) option" where
  "game_loop g =
     (case tick g of
        Inl (e, g') \<Rightarrow> if e = Blocked then None else Some (Inl (e, g'))
      | Inr (playing, g') \<Rightarrow> if playing then game_loop g' else Some (Inr ((), g')))"

text \<open>\<open>play\<close>: \<open>try: create_screen(); loop finally: close_screen()\<close>.\<close>

definition snake_play ::
  "snake_game \<Rightarrow> ((error \<times> snake_game) + (unit \<times> snake_game)) option" where
  "snake_play g =
     map_option (\<lambda>r. finally_res r close_screen)
       (case create_screen g of
          Inl es \<Rightarrow> Some (Inl es)
        | Inr (_, g') \<Rightarrow> game_loop g')"


subsection \<open>Well-formed states and the per-tick specification\<close>

text \<open>A state the loop of \<open>play\<close> can run on: a non-empty snake, a facing the
  direction table knows, the window attached, \<open>initscr\<close> done, nodelay input, and a
  window of positive size.\<close>

definition snake_wf :: "snake_game \<Rightarrow> bool" where
  "snake_wf g \<longleftrightarrow> snake g \<noteq> [] \<and> directional_mapping (facing g) \<noteq> None \<and> stdscr g \<and>
     initialised (surf g) \<and> nodelay_on (surf g) \<and> 0 < lines (surf g) \<and> 0 < cols (surf g)"

text \<open>The key \<open>getch\<close> returns next, and the position two raw draws give.\<close>

definition next_key :: "surface \<Rightarrow> int" where
  "next_key t = (case pending t of [] \<Rightarrow> -1 | k # _ \<Rightarrow> k)"

definition draw_pos :: "int \<Rightarrow> int \<Rightarrow> nat stream \<Rightarrow> pos" where
  "draw_pos l c r = (int (shd r) mod l, int (shd (stl r)) mod c)"

definition turn :: "int \<Rightarrow> string \<Rightarrow> string" where
  "turn k d = (case keypress_movement_mapping k of Some d' \<Rightarrow> d' | None \<Rightarrow> d)"

definition next_head :: "snake_game \<Rightarrow> pos" where
  "next_head g = add_tuples (last (snake g)) (the (directional_mapping (facing g)))"

text \<open>The spec's per-tick algorithm (section 4.3, steps 1--6) as a pure function of the
  window size, the key read and the game's view: place the food if absent, turn, move
  the head if the new cell passes the bound check, and grow if the pre-move head was on
  the food.\<close>

type_synonym snake_view = "pos list \<times> pos option \<times> string \<times> nat stream"

definition view :: "snake_game \<Rightarrow> snake_view" where
  "view g = (snake g, food g, facing g, rng g)"

definition tick_spec :: "int \<Rightarrow> int \<Rightarrow> int \<Rightarrow> snake_view \<Rightarrow> bool \<times> snake_view" where
  "tick_spec l c k v = (case v of (sn, f, d, r) \<Rightarrow>
     let (f1, r1) = (if f = None then (Some (draw_pos l c r), stl (stl r)) else (f, r));
         d1 = turn k d;
         h = last sn;
         nh = add_tuples h (the (directional_mapping d1))
     in if in_bounds l c nh
        then (let sn1 = tl sn @ [nh] in
              if Some h = f1 then (True, hd sn1 # sn1, Some (draw_pos l c r1), d1, stl (stl r1))
              else (True, sn1, f1, d1, r1))
        else (False, sn, f1, d1, r1))"

definition tick_head :: "snake_game \<Rightarrow> pos" where
  "tick_head g = add_tuples (last (snake g))
     (the (directional_mapping (turn (next_key (surf g)) (facing g))))"

subsection \<open>The termination measure of the play loop\<close>

text \<open>How many moves the head can still make in its facing before the bound check
  fails, and the measure of the loop: first the keys still to be read (each tick reads
  one), then that distance (with no key left, the facing is fixed).\<close>

definition dist_from :: "string \<Rightarrow> int \<Rightarrow> int \<Rightarrow> pos \<Rightarrow> nat" where
  "dist_from d l c p =
     (if d = ''right'' then nat (c - snd p) else if d = ''left'' then nat (snd p)
      else if d = ''up'' then nat (fst p) else if d = ''down'' then nat (l - fst p) else 0)"

definition head_dist :: "snake_game \<Rightarrow> nat" where
  "head_dist g = (if snake g = [] then 0
                  else dist_from (facing g) (lines (surf g)) (cols (surf g)) (last (snake g)))"

definition loop_measure :: "snake_game \<Rightarrow> nat \<times> nat" where
  "loop_measure g = (length (pending (surf g)), head_dist g)"

subsection \<open>The picture \<open>_draw_screen\<close> paints\<close>

text \<open>The cells a list of positions paints with one glyph over a buffer, and the
  abstract picture of a game: the food glyph on the food, the snake glyph on every
  segment, nothing elsewhere.\<close>

definition paint :: "pos list \<Rightarrow> char \<Rightarrow> (pos \<Rightarrow> cell option) \<Rightarrow> (pos \<Rightarrow> cell option)" where
  "paint ps c m = (\<lambda>p. if p \<in> set ps then Some (c, 0) else m p)"

definition render :: "pos list \<Rightarrow> pos \<Rightarrow> (pos \<Rightarrow> cell option)" where
  "render sn f = (\<lambda>p. if p = f then Some (FOOD_CHAR, 0)
                       else if p \<in> set sn then Some (SNAKE_CHAR, 0) else None)"

definition food_ok :: "snake_game \<Rightarrow> bool" where
  "food_ok g = (case food g of None \<Rightarrow> True | Some f \<Rightarrow> in_window (surf g) f)"

subsection \<open>Reachable states of the play loop\<close>

text \<open>The states the \<open>while playing\<close> loop passes through: the state
  \<open>create_screen\<close> makes from \<open>Snake()\<close> on a terminal with a window, and every
  state a pass returning \<open>True\<close> leads to. Keys typed during the game are the
  terminal's pending input, read one per pass.\<close>

inductive snake_reach :: "snake_game \<Rightarrow> bool" where
  start: "create_screen (snake_init t r) = Inr ((), g) \<Longrightarrow> 0 < lines t \<Longrightarrow> 0 < cols t \<Longrightarrow>
          snake_reach g"
| step: "snake_reach g \<Longrightarrow> tick g = Inr (True, g') \<Longrightarrow> snake_reach g'"

text \<open>The shape of the body: each segment is the next one or one of its four
  neighbours (growth repeats a segment), so the snake is a path of unit steps.\<close>

definition adjacent :: "pos \<Rightarrow> pos \<Rightarrow> bool" where
  "adjacent p q \<longleftrightarrow> \<bar>fst p - fst q\<bar> + \<bar>snd p - snd q\<bar> \<le> 1"

fun snake_chain :: "pos list \<Rightarrow> bool" where
  "snake_chain (p # q # ps) \<longleftrightarrow> adjacent p q \<and> snake_chain (q # ps)"
| "snake_chain _ \<longleftrightarrow> True"

definition snake_inv :: "snake_game \<Rightarrow> bool" where
  "snake_inv g \<longleftrightarrow> snake_wf g \<and> food_ok g \<and> (\<forall>p \<in> set (snake g). in_window (surf g) p)"

subsection \<open>Concrete states\<close>

text \<open>The state \<open>create_screen\<close> reaches from \<open>Snake()\<close> on the terminal
  \<open>demo_term ks\<close> (\<open>create_screen_demo\<close>); the witnesses run the methods from
  variants of it.\<close>

definition demo_game :: "int list \<Rightarrow> nat stream \<Rightarrow> snake_game" where
  "demo_game ks r = snake_init (demo_term ks\<lparr>initialised := True, in_curses := True,
     cbreak_on := True, echo_on := False, keypad_on := True, nodelay_on := True,
     cursor_on := False\<rparr>) r\<lparr>stdscr := True\<rparr>"

subsection \<open>Each segment of \<open>update_logic\<close> on a well-formed state\<close>

lemma curses_LINES_eq: "initialised (surf g) \<Longrightarrow> curses_LINES g = Inr (lines (surf g), g)"
  by (simp add: curses_LINES_def exc_simps)

lemma curses_COLS_eq: "initialised (surf g) \<Longrightarrow> curses_COLS g = Inr (cols (surf g), g)"
  by (simp add: curses_COLS_def exc_simps)

lemma random_pos_eq:
  assumes "initialised (surf g)" "0 < lines (surf g)" "0 < cols (surf g)"
  shows "random_pos g = Inr (draw_pos (lines (surf g)) (cols (surf g)) (rng g),
                             g\<lparr>rng := stl (stl (rng g))\<rparr>)"
  using assms by (simp add: random_pos_def curses_LINES_def curses_COLS_def on_rng_def
      randint_def draw_pos_def exc_simps)

lemma ensure_food_eq:
  assumes "snake_wf g"
  shows "ensure_food g = Inr ((),
     if food g = None
     then g\<lparr>food := Some (draw_pos (lines (surf g)) (cols (surf g)) (rng g)),
            rng := stl (stl (rng g))\<rparr>
     else g)"
  using assms by (simp add: ensure_food_def random_pos_eq snake_wf_def exc_simps)

lemma read_input_eq:
  assumes "snake_wf g"
  shows "read_input g = Inr ((),
     g\<lparr>facing := turn (next_key (surf g)) (facing g),
       surf := surf g\<lparr>pending := tl (pending (surf g))\<rparr>\<rparr>)"
  using assms
  by (auto simp: read_input_def win_def on_surf_def getch_def next_key_def snake_wf_def turn_def
      exc_simps split: list.splits option.splits)

lemma turn_known:
  "directional_mapping d \<noteq> None \<Longrightarrow> directional_mapping (turn k d) \<noteq> None"
  by (auto simp: turn_def keypress_movement_mapping_def directional_mapping_def
      split: option.splits if_splits)

lemma read_input_wf:
  "snake_wf g \<Longrightarrow> read_input g = Inr ((), g') \<Longrightarrow> snake_wf g'"
  using turn_known [of "facing g" "next_key (surf g)"]
  by (auto simp: read_input_eq snake_wf_def)

lemma bound_check_eq:
  "initialised (surf g) \<Longrightarrow> bound_check p g = Inr (in_bounds (lines (surf g)) (cols (surf g)) p, g)"
  by (auto simp: bound_check_def curses_LINES_eq curses_COLS_eq in_bounds_def exc_simps)

lemma move_eq:
  assumes "snake_wf g"
  shows "move g =
     (if in_bounds (lines (surf g)) (cols (surf g)) (next_head g)
      then Inr ((True, last (snake g)), g\<lparr>snake := tl (snake g @ [next_head g])\<rparr>)
      else Inr ((False, last (snake g)), g))"
  using assms
  by (auto simp: move_def bound_check_eq next_head_def snake_wf_def Let_def
      exc_simps split: option.splits)

lemma eat_eq:
  assumes "initialised (surf g)" "0 < lines (surf g)" "0 < cols (surf g)"
  shows "eat h g =
     (if Some h = food g
      then Inr ((), g\<lparr>snake := hd (snake g) # snake g,
                     food := Some (draw_pos (lines (surf g)) (cols (surf g)) (rng g)),
                     rng := stl (stl (rng g))\<rparr>)
      else Inr ((), g))"
proof -
  have "random_pos (g\<lparr>snake := hd (snake g) # snake g\<rparr>) =
        Inr (draw_pos (lines (surf g)) (cols (surf g)) (rng g),
             g\<lparr>snake := hd (snake g) # snake g, rng := stl (stl (rng g))\<rparr>)"
    using assms by (simp add: random_pos_eq)
  then show ?thesis by (simp add: eat_def exc_simps)
qed

text \<open>The whole tick on a well-formed state: no exception, and the pure
  \<open>tick_spec\<close> computes the result, the new view and the consumed key.\<close>

lemma update_logic_eq:
  assumes wf: "snake_wf g"
  shows "update_logic g =
     (case tick_spec (lines (surf g)) (cols (surf g)) (next_key (surf g)) (view g) of
        (b, sn, f, d, r) \<Rightarrow>
          Inr (b, g\<lparr>snake := sn, food := f, facing := d, rng := r,
                   surf := surf g\<lparr>pending := tl (pending (surf g))\<rparr>\<rparr>))"
proof -
  define g1 where "g1 = (if food g = None
     then g\<lparr>food := Some (draw_pos (lines (surf g)) (cols (surf g)) (rng g)),
            rng := stl (stl (rng g))\<rparr> else g)"
  have e1: "ensure_food g = Inr ((), g1)" using wf by (simp add: ensure_food_eq g1_def)
  have wf1: "snake_wf g1" using wf by (simp add: g1_def snake_wf_def)
  define g2 where "g2 = g1\<lparr>facing := turn (next_key (surf g1)) (facing g1),
       surf := surf g1\<lparr>pending := tl (pending (surf g1))\<rparr>\<rparr>"
  have e2: "read_input g1 = Inr ((), g2)" using wf1 by (simp add: read_input_eq g2_def)
  have wf2: "snake_wf g2" using read_input_wf [OF wf1 e2] .
  have surf2: "lines (surf g2) = lines (surf g)" "cols (surf g2) = cols (surf g)"
    "initialised (surf g2)"
    using wf by (simp_all add: g2_def g1_def snake_wf_def)
  show ?thesis
    using wf e1 e2 wf2 surf2
    by (simp add: update_logic_def move_eq eat_eq tick_spec_def view_def next_head_def Let_def
        exc_simps g2_def g1_def snake_wf_def split: option.splits)
qed

lemma draw_pos_in_window:
  "0 < lines t \<Longrightarrow> 0 < cols t \<Longrightarrow> in_window t (draw_pos (lines t) (cols t) r)"
  by (simp add: draw_pos_def in_window_def)

lemmas tick_simps = tick_spec_def view_def tick_head_def Let_def

lemma create_screen_demo: "create_screen (snake_init (demo_term ks) r) = Inr ((), demo_game ks r)"
  by (simp add: create_screen_def snake_init_def demo_term_def demo_game_def on_surf_def win_def
      initscr_def keypad_def nodelay_def noecho_def cbreak_def curs_set_def curses_call_def
      need_init_def exc_simps)

lemma demo_wf: "snake_wf (demo_game ks r)"
  by (simp add: snake_wf_def demo_game_def snake_init_def demo_term_def directional_mapping_def)

lemma demo_wf_upd:
  "xs \<noteq> [] \<Longrightarrow> directional_mapping d \<noteq> None \<Longrightarrow>
   snake_wf ((demo_game ks r)\<lparr>snake := xs, food := f, facing := d\<rparr>)"
  using demo_wf [of ks r] by (simp add: snake_wf_def)

lemmas demo_simps = demo_game_def snake_init_def demo_term_def next_key_def turn_def draw_pos_def
  keypress_movement_mapping_def directional_mapping_def add_tuples_def in_bounds_def
  KEY_LEFT_def KEY_RIGHT_def KEY_UP_def KEY_DOWN_def tick_head_def

subsection \<open>Frames of the methods\<close>

lemma keeps_on_surf [keeps_intros]:
  "keeps h m \<Longrightarrow> keeps (\<lambda>g. h (surf g)) (on_surf m)"
  unfolding on_surf_def by (rule keeps_on_field) simp_all

lemma keeps_on_surf_other [keeps_intros]:
  "(\<And>g t. f (g\<lparr>surf := t\<rparr>) = f g) \<Longrightarrow> keeps f (on_surf m)"
  unfolding on_surf_def by (rule keeps_on_field_other) simp

lemma keeps_on_rng_other [keeps_intros]:
  "(\<And>g r. f (g\<lparr>rng := r\<rparr>) = f g) \<Longrightarrow> keeps f (on_rng m)"
  unfolding on_rng_def by (rule keeps_on_field_other) simp

lemma keeps_win [keeps_intros]:
  assumes "keeps f (on_surf m)"
  shows "keeps f (win m)"
  unfolding win_def by (rule keeps_ebind [OF keeps_eget]) (rule keeps_if [OF assms keeps_throw])

lemma draw_screen_keeps_obj: "keeps (\<lambda>g. (snake g, facing g, stdscr g, food g)) draw_screen"
  unfolding draw_screen_def by (intro keeps_intros) simp_all

lemma draw_screen_keeps_surf: "keeps (\<lambda>g. surf_frame (surf g)) draw_screen"
  unfolding draw_screen_def by (intro keeps_intros)

lemma refresh_keeps_obj: "keeps (\<lambda>g. (snake g, facing g, stdscr g, food g)) (win refresh)"
  by (intro keeps_intros) simp_all

lemma refresh_keeps_surf: "keeps (\<lambda>g. surf_frame (surf g)) (win refresh)"
  by (intro keeps_intros)

lemma random_pos_keeps [keeps_intros]:
  "keeps (\<lambda>g. (snake g, facing g, stdscr g, surf g)) random_pos"
  unfolding random_pos_def curses_LINES_def curses_COLS_def
  by (intro keeps_intros) simp_all

lemma ensure_food_keeps: "keeps (\<lambda>g. (snake g, facing g, stdscr g, surf g)) ensure_food"
  unfolding ensure_food_def by (intro keeps_intros) simp_all

lemma eat_keeps: "keeps (\<lambda>g. (facing g, stdscr g, surf g)) (eat h)"
  unfolding eat_def random_pos_def curses_LINES_def curses_COLS_def
  by (intro keeps_intros) simp_all

subsection \<open>Each segment of \<open>update_logic\<close> on any state\<close>

lemma keypress_none: "keypress_movement_mapping (-1) = None"
  by (simp add: keypress_movement_mapping_def KEY_LEFT_def KEY_RIGHT_def KEY_UP_def KEY_DOWN_def)

lemma read_input_Inr:
  assumes "read_input g = Inr (u, g')"
  shows "snake g' = snake g \<and> stdscr g' = stdscr g \<and>
         surf g' = surf g\<lparr>pending := tl (pending (surf g))\<rparr> \<and>
         (pending (surf g) = [] \<longrightarrow> facing g' = facing g)"
  using assms keypress_none
  by (auto simp: read_input_def win_def on_surf_def getch_def exc_simps
      split: list.splits option.splits if_splits sum.splits prod.splits)

lemma move_True:
  assumes "move g = Inr ((True, h), g')"
  shows "snake g \<noteq> [] \<and> facing g' = facing g \<and> surf g' = surf g \<and> stdscr g' = stdscr g \<and>
         (\<exists>delta. directional_mapping (facing g) = Some delta \<and>
            in_bounds (lines (surf g)) (cols (surf g)) (add_tuples (last (snake g)) delta) \<and>
            snake g' = tl (snake g @ [add_tuples (last (snake g)) delta]))"
  using assms
  by (auto simp: move_def bound_check_def curses_LINES_def curses_COLS_def in_bounds_def
      exc_simps Let_def split: if_splits option.splits sum.splits prod.splits)

lemma eat_last:
  assumes "eat h g = Inr (u, g')" "snake g \<noteq> []"
  shows "snake g' \<noteq> [] \<and> last (snake g') = last (snake g)"
proof (cases "Some h = food g")
  case True
  then have eq: "eat h g = (case random_pos (g\<lparr>snake := hd (snake g) # snake g\<rparr>) of
      Inl es \<Rightarrow> Inl es | Inr (p, g2) \<Rightarrow> Inr ((), g2\<lparr>food := Some p\<rparr>))"
    by (simp add: eat_def exc_simps split: sum.split prod.split)
  with assms(1) obtain p g2 where
    r: "random_pos (g\<lparr>snake := hd (snake g) # snake g\<rparr>) = Inr (p, g2)"
    and g': "g' = g2\<lparr>food := Some p\<rparr>"
    by (auto split: sum.splits prod.splits)
  from keeps_Inr [OF random_pos_keeps r] have "snake g2 = hd (snake g) # snake g" by simp
  with g' assms(2) show ?thesis by simp
next
  case False
  with assms show ?thesis by (simp add: eat_def exc_simps)
qed

text \<open>A tick that returns \<open>True\<close> consumed a key, or, with no key pending, moved the
  head one in-bounds cell along the unchanged facing.\<close>

lemma update_True:
  assumes "update_logic g = Inr (True, g')"
  shows "snake g \<noteq> [] \<and> snake g' \<noteq> [] \<and> stdscr g' = stdscr g \<and>
         surf g' = surf g\<lparr>pending := tl (pending (surf g))\<rparr> \<and>
         (pending (surf g) = [] \<longrightarrow> facing g' = facing g \<and>
            (\<exists>delta. directional_mapping (facing g) = Some delta \<and>
               last (snake g') = add_tuples (last (snake g)) delta \<and>
               in_bounds (lines (surf g)) (cols (surf g)) (last (snake g'))))"
proof -
  from assms obtain g1 g2 h g3 where
    e1: "ensure_food g = Inr ((), g1)" and e2: "read_input g1 = Inr ((), g2)" and
    e3: "move g2 = Inr ((True, h), g3)" and e4: "eat h g3 = Inr ((), g')"
    by (auto simp: update_logic_def ebind_eq_Inr ret_apply split: if_splits prod.splits)
  have k1: "snake g1 = snake g" "facing g1 = facing g" "stdscr g1 = stdscr g" "surf g1 = surf g"
    using keeps_Inr [OF ensure_food_keeps e1] by simp_all
  note k2 = read_input_Inr [OF e2]
  note k3 = move_True [OF e3]
  have k4: "facing g' = facing g3" "stdscr g' = stdscr g3" "surf g' = surf g3"
    using keeps_Inr [OF eat_keeps e4] by simp_all
  have "snake g3 \<noteq> []" using k3 by auto
  with eat_last [OF e4] have k5: "snake g' \<noteq> []" "last (snake g') = last (snake g3)" by simp_all
  show ?thesis using k1 k2 k3 k4 k5 by auto
qed

lemma dist_from_step:
  "directional_mapping d = Some delta \<Longrightarrow> in_bounds l c (add_tuples p delta) \<Longrightarrow>
   dist_from d l c (add_tuples p delta) < dist_from d l c p"
  by (auto simp: directional_mapping_def dist_from_def in_bounds_def add_tuples_def
      split: if_splits)

lemma tick_True:
  assumes "tick g = Inr (True, g')"
  shows "loop_measure g' < loop_measure g"
proof -
  from assms obtain g4 g5 where
    u: "update_logic g = Inr (True, g4)" and d: "draw_screen g4 = Inr ((), g5)" and
    r: "win refresh g5 = Inr ((), g')"
    by (auto simp: tick_def ebind_eq_Inr ret_apply)
  have same: "snake g' = snake g4" "facing g' = facing g4" "surf_frame (surf g') = surf_frame (surf g4)"
    using keeps_Inr [OF draw_screen_keeps_obj d] keeps_Inr [OF draw_screen_keeps_surf d]
      keeps_Inr [OF refresh_keeps_obj r] keeps_Inr [OF refresh_keeps_surf r]
    by simp_all
  then have pend: "pending (surf g') = pending (surf g4)" and
    lc: "lines (surf g') = lines (surf g4)" "cols (surf g') = cols (surf g4)"
    by (simp_all add: surf_frame_def)
  note up = update_True [OF u]
  show ?thesis
  proof (cases "pending (surf g) = []")
    case True
    with up obtain delta where dm: "directional_mapping (facing g) = Some delta"
      and hd: "last (snake g4) = add_tuples (last (snake g)) delta"
      and ib: "in_bounds (lines (surf g)) (cols (surf g)) (last (snake g4))"
      and fc: "facing g4 = facing g"
      by blast
    have "head_dist g' < head_dist g"
      using dist_from_step [OF dm, of "lines (surf g)" "cols (surf g)" "last (snake g)"]
        ib hd fc same lc up
      by (simp add: head_dist_def)
    then show ?thesis using True pend up by (simp add: loop_measure_def)
  next
    case False
    then show ?thesis using pend up by (simp add: loop_measure_def)
  qed
qed

subsection \<open>The play loop\<close>

lemma efor_addch_not_blocked:
  "efor (\<lambda>sq. win (addch (fst sq) (snd sq) c)) ps g = Inl (e, g') \<Longrightarrow> e \<noteq> Blocked"
proof (induction ps arbitrary: g)
  case Nil
  then show ?case by (simp add: exc_simps)
next
  case (Cons q ps)
  then show ?case
    by (cases q) (auto simp: win_def on_surf_def addch_def addstr_def exc_simps
        split: if_splits sum.splits prod.splits)
qed

lemma draw_screen_not_blocked: "draw_screen g = Inl (e, g') \<Longrightarrow> e \<noteq> Blocked"
  using efor_addch_not_blocked
  by (fastforce simp: draw_screen_def win_def on_surf_def clear_def addch_def addstr_def exc_simps
      split: if_splits sum.splits prod.splits option.splits)

lemma update_logic_not_blocked:
  "nodelay_on (surf g) \<Longrightarrow> update_logic g = Inl (e, g') \<Longrightarrow> e \<noteq> Blocked"
  by (auto simp: update_logic_def ensure_food_def random_pos_def curses_LINES_def curses_COLS_def
      on_rng_def randint_def read_input_def win_def on_surf_def getch_def move_def bound_check_def
      eat_def Let_def exc_simps
      split: if_splits sum.splits prod.splits option.splits list.splits)

lemma tick_not_blocked:
  assumes "nodelay_on (surf g)" "tick g = Inl (e, g')"
  shows "e \<noteq> Blocked"
proof (cases "update_logic g")
  case (Inl es)
  then show ?thesis
    using assms update_logic_not_blocked [OF assms(1), of "fst es" "snd es"]
    by (cases es) (simp add: tick_def)
next
  case (Inr bg)
  then obtain b g1 where u: "update_logic g = Inr (b, g1)" by (cases bg) auto
  show ?thesis
  proof (cases "draw_screen g1")
    case (Inl es)
    then show ?thesis
      using assms u draw_screen_not_blocked [of g1 "fst es" "snd es"]
      by (cases es) (simp add: tick_def)
  next
    case (Inr ug)
    then obtain g2 where "draw_screen g1 = Inr ((), g2)" by (cases ug) auto
    then show ?thesis
      using assms u by (auto simp: tick_def win_def on_surf_def refresh_def exc_simps split: if_splits)
  qed
qed

lemma tick_keeps_nodelay: "keeps (\<lambda>g. nodelay_on (surf g)) tick"
  unfolding tick_def update_logic_def ensure_food_def random_pos_def curses_LINES_def
    curses_COLS_def read_input_def move_def bound_check_def eat_def draw_screen_def
  by (intro keeps_intros) simp_all

text \<open>Fixpoint induction over the loop, once for all its users: a property of the
  result follows from the three ways a pass can go (an exception other than a blocked
  read, a last pass returning \<open>False\<close>, a pass returning \<open>True\<close> followed by the rest).\<close>

lemma game_loop_rule:
  assumes "game_loop g = Some r"
    and exc: "\<And>g e g'. tick g = Inl (e, g') \<Longrightarrow> e \<noteq> Blocked \<Longrightarrow> P g (Inl (e, g'))"
    and stop: "\<And>g g'. tick g = Inr (False, g') \<Longrightarrow> P g (Inr ((), g'))"
    and more: "\<And>g g' r. tick g = Inr (True, g') \<Longrightarrow> P g' r \<Longrightarrow> P g r"
  shows "P g r"
proof (rule game_loop.raw_induct [where P = P, OF _ assms(1)])
  fix f :: "snake_game \<Rightarrow> ((error \<times> snake_game) + (unit \<times> snake_game)) option" and g r
  assume IH: "\<And>g r. f g = Some r \<Longrightarrow> P g r"
    and eq: "(case tick g of Inl (e, g') \<Rightarrow> if e = Blocked then None else Some (Inl (e, g'))
              | Inr (playing, g') \<Rightarrow> if playing then f g' else Some (Inr ((), g'))) = Some r"
  show "P g r"
  proof (cases "tick g")
    case (Inl es)
    then obtain e g' where t: "tick g = Inl (e, g')" by (cases es) auto
    with eq show ?thesis by (auto intro: exc split: if_splits)
  next
    case (Inr bg)
    then obtain b g' where t: "tick g = Inr (b, g')" by (cases bg) auto
    show ?thesis
    proof (cases b)
      case True
      with t eq have "f g' = Some r" by simp
      moreover from t True have "tick g = Inr (True, g')" by simp
      ultimately show ?thesis by (blast intro: more IH)
    next
      case False
      with t eq show ?thesis by (auto intro: stop)
    qed
  qed
qed

text \<open>In nodelay mode (as \<open>create_screen\<close> leaves the window) the loop returns: each pass
  either raises, returns \<open>False\<close>, or reads one of the finitely many typed keys, or,
  with none left, moves the head one cell closer to the bound in its unchanged facing.\<close>

lemma game_loop_returns: "nodelay_on (surf g) \<Longrightarrow> \<exists>r. game_loop g = Some r"
proof (induction "loop_measure g" arbitrary: g rule: less_induct)
  case less
  show ?case
  proof (cases "tick g")
    case (Inl es)
    then obtain e g' where t: "tick g = Inl (e, g')" by (cases es) auto
    with tick_not_blocked [OF less.prems t] show ?thesis by (simp add: game_loop.simps)
  next
    case (Inr bg)
    then obtain b g' where t: "tick g = Inr (b, g')" by (cases bg) auto
    show ?thesis
    proof (cases b)
      case True
      with t have "loop_measure g' < loop_measure g" by (simp add: tick_True)
      moreover have "nodelay_on (surf g')"
        using keeps_Inr [OF tick_keeps_nodelay t] less.prems by simp
      ultimately obtain r where "game_loop g' = Some r" using less by blast
      with t True show ?thesis by (simp add: game_loop.simps)
    next
      case False
      with t show ?thesis by (simp add: game_loop.simps)
    qed
  qed
qed

text \<open>In blocking mode with no key typed, the first pass waits in \<open>getch\<close> for ever.\<close>

lemma game_loop_blocks:
  assumes "stdscr g" "food g \<noteq> None" "\<not> nodelay_on (surf g)" "pending (surf g) = []"
  shows "game_loop g = None"
proof -
  have "read_input g = Inl (Blocked, g)"
    using assms by (simp add: read_input_def win_def on_surf_def getch_def exc_simps)
  then have "update_logic g = Inl (Blocked, g)"
    using assms(2) by (auto simp: update_logic_def ensure_food_def exc_simps)
  then show ?thesis by (subst game_loop.simps) (simp add: tick_def exc_simps)
qed

subsection \<open>The play loop\<close>

text \<open>C3: The \<open>while playing\<close> loop of \<open>play\<close> ends from every state whose window is in
  nodelay mode, as \<open>create_screen\<close> sets it, for a player who types no more keys than
  those pending: it cannot run forever on its own. Without nodelay it does not end: with
  no key typed, the first pass waits in \<open>getch\<close> for ever.\<close>

theorem game_loop_terminates:
  "(nodelay_on (surf g) \<longrightarrow> (\<exists>r. game_loop g = Some r)) \<and>
   (stdscr g \<and> food g \<noteq> None \<and> \<not> nodelay_on (surf g) \<and> pending (surf g) = [] \<longrightarrow> game_loop g = None)"
  using game_loop_returns game_loop_blocks by blast

theorem game_loop_terminates_witness:
  "(\<exists>r. game_loop (demo_game [] (sconst 3)) = Some r) \<and>
   game_loop ((demo_game [] (sconst 3))\<lparr>food := Some (1, 1),
     surf := (surf (demo_game [] (sconst 3)))\<lparr>nodelay_on := False\<rparr>\<rparr>) = None"
  using game_loop_terminates [of "demo_game [] (sconst 3)"]
    game_loop_terminates [of "(demo_game [] (sconst 3))\<lparr>food := Some (1, 1),
     surf := (surf (demo_game [] (sconst 3)))\<lparr>nodelay_on := False\<rparr>\<rparr>"]
  by (simp add: demo_game_def snake_init_def demo_term_def)

subsection \<open>Properties of one tick\<close>

text \<open>C1: On a well-formed state, \<open>_update_logic\<close> implements the spec's per-tick
  algorithm: it raises nothing, its result and the new snake, food, facing and random
  state are those of \<open>tick_spec\<close>, it consumes one pending key, and it changes nothing
  else of the window or the object.\<close>

theorem update_logic_refines:
  assumes "snake_wf g"
  shows "\<exists>g'. update_logic g =
           Inr (fst (tick_spec (lines (surf g)) (cols (surf g)) (next_key (surf g)) (view g)), g') \<and>
         view g' = snd (tick_spec (lines (surf g)) (cols (surf g)) (next_key (surf g)) (view g)) \<and>
         surf g' = surf g\<lparr>pending := tl (pending (surf g))\<rparr> \<and>
         stdscr g' = stdscr g \<and> score g' = score g"
  using update_logic_eq [OF assms] by (auto simp: view_def split: prod.splits)

theorem update_logic_refines_witness:
  "snake_wf (demo_game [] (sconst 3)) \<and>
   (\<exists>g'. update_logic (demo_game [] (sconst 3)) =
           Inr (fst (tick_spec 24 80 (-1) ([(0, 0)], None, ''right'', sconst 3)), g') \<and>
         view g' = snd (tick_spec 24 80 (-1) ([(0, 0)], None, ''right'', sconst 3)) \<and>
         surf g' = surf (demo_game [] (sconst 3)) \<and>
         stdscr g' \<and> score g' = 0)"
proof -
  have wf: "snake_wf (demo_game [] (sconst 3))" by (rule demo_wf)
  from update_logic_refines [OF wf] show ?thesis
    using wf by (simp add: demo_game_def snake_init_def demo_term_def next_key_def view_def)
qed

text \<open>C2: On a well-formed state, \<open>_update_logic\<close> raises nothing and returns
  \<open>False\<close> exactly when the new head (the last segment moved one cell in the facing the
  key read selects) fails the bound check \<open>0 <= y < LINES and 0 < x <= COLS\<close>.\<close>

theorem update_logic_result:
  assumes "snake_wf g"
  shows "\<exists>g'. update_logic g = Inr (in_bounds (lines (surf g)) (cols (surf g)) (tick_head g), g')"
  using assms by (auto simp: update_logic_eq tick_simps split: prod.splits)

theorem update_logic_result_witness:
  "snake_wf ((demo_game [KEY_LEFT] (sconst 3))\<lparr>snake := [(0, 1)]\<rparr>) \<and>
   (\<exists>g'. update_logic ((demo_game [KEY_LEFT] (sconst 3))\<lparr>snake := [(0, 1)]\<rparr>) = Inr (False, g'))"
proof -
  have wf: "snake_wf ((demo_game [KEY_LEFT] (sconst 3))\<lparr>snake := [(0, 1)]\<rparr>)"
    using demo_wf [of "[KEY_LEFT]" "sconst 3"] by (simp add: snake_wf_def)
  from update_logic_result [OF wf] show ?thesis
    using wf by (simp add: demo_simps)
qed

text \<open>C14: When the new head passes the bound check and the pre-move head is not on the
  food, the tick moves the snake without growing it: the tail segment is dropped, the new
  head appended, and the food stays where it was.\<close>

theorem update_logic_move:
  assumes "snake_wf g" "food g = Some f" "f \<noteq> last (snake g)"
    and "in_bounds (lines (surf g)) (cols (surf g)) (tick_head g)"
  shows "\<exists>g'. update_logic g = Inr (True, g') \<and>
           snake g' = tl (snake g) @ [tick_head g] \<and>
           length (snake g') = length (snake g) \<and> food g' = food g"
  using assms by (auto simp: update_logic_eq tick_simps snake_wf_def)

theorem update_logic_move_witness:
  "\<exists>g'. update_logic ((demo_game [] (sconst 3))\<lparr>snake := [(5, 5), (5, 6)], food := Some (1, 1),
           facing := ''right''\<rparr>) = Inr (True, g') \<and> snake g' = [(5, 6), (5, 7)] \<and>
         food g' = Some (1, 1)"
proof -
  let ?g = "(demo_game [] (sconst 3))\<lparr>snake := [(5, 5), (5, 6)], food := Some (1, 1),
           facing := ''right''\<rparr>"
  have wf: "snake_wf ?g" by (rule demo_wf_upd) (simp_all add: directional_mapping_def)
  have hd: "tick_head ?g = (5, 7)" by (simp add: demo_simps)
  have ib: "in_bounds (lines (surf ?g)) (cols (surf ?g)) (tick_head ?g)"
    by (simp add: hd) (simp add: demo_simps)
  from update_logic_move [OF wf _ _ ib, of "(1, 1)"] show ?thesis by (auto simp: hd)
qed

text \<open>C15: When the new head passes the bound check and the pre-move head is on the
  food, the snake grows by one segment: after the move, its first segment is duplicated,
  and new food is placed inside the window.\<close>

theorem update_logic_grow:
  assumes "snake_wf g" "food g = Some (last (snake g))"
    and "in_bounds (lines (surf g)) (cols (surf g)) (tick_head g)"
  shows "\<exists>g'. update_logic g = Inr (True, g') \<and>
           snake g' = hd (tl (snake g) @ [tick_head g]) # tl (snake g) @ [tick_head g] \<and>
           length (snake g') = Suc (length (snake g)) \<and>
           (\<exists>p. food g' = Some p \<and> in_window (surf g') p)"
  using assms by (auto simp: update_logic_eq tick_simps snake_wf_def in_window_def draw_pos_def)

theorem update_logic_grow_witness:
  "\<exists>g'. update_logic ((demo_game [] (sconst 3))\<lparr>snake := [(2, 3)], food := Some (2, 3),
           facing := ''down''\<rparr>) = Inr (True, g') \<and> snake g' = [(3, 3), (3, 3)] \<and>
         (\<exists>p. food g' = Some p \<and> in_window (surf g') p)"
proof -
  let ?g = "(demo_game [] (sconst 3))\<lparr>snake := [(2, 3)], food := Some (2, 3),
           facing := ''down''\<rparr>"
  have wf: "snake_wf ?g" by (rule demo_wf_upd) (simp_all add: directional_mapping_def)
  have hd: "tick_head ?g = (3, 3)" by (simp add: demo_simps)
  have ib: "in_bounds (lines (surf ?g)) (cols (surf ?g)) (tick_head ?g)"
    by (simp add: hd) (simp add: demo_simps)
  from update_logic_grow [OF wf _ ib] show ?thesis by (auto simp: hd)
qed

lemma tick_keeps_stdscr: "keeps stdscr tick"
  unfolding tick_def update_logic_def ensure_food_def random_pos_def curses_LINES_def
    curses_COLS_def read_input_def move_def bound_check_def eat_def draw_screen_def
  by (intro keeps_intros) simp_all

lemma tick_keeps_modes: "keeps (\<lambda>g. tty_modes (surf g)) tick"
  unfolding tick_def update_logic_def ensure_food_def random_pos_def curses_LINES_def
    curses_COLS_def read_input_def move_def bound_check_def eat_def draw_screen_def
  by (intro keeps_intros) simp_all


lemma game_loop_keeps:
  assumes "game_loop g = Some r"
  shows "stdscr (final_state r) = stdscr g \<and> tty_modes (surf (final_state r)) = tty_modes (surf g)"
proof -
  have k: "stdscr (final_state x) = stdscr g \<and> tty_modes (surf (final_state x)) = tty_modes (surf g)"
    if "tick g = x" for g x
    using keepsD [OF tick_keeps_stdscr that] keepsD [OF tick_keeps_modes that] by simp
  show ?thesis
    by (rule game_loop_rule [OF assms]) (use k in fastforce)+
qed

text \<open>\<open>create_screen\<close> fails only in \<open>initscr\<close>, and then changes nothing.\<close>

lemma create_screen_eq:
  "create_screen g =
     (if \<not> tty (surf g) then Inl (SurfaceInitError, g)
      else Inr ((), g\<lparr>stdscr := True,
                       surf := surf g\<lparr>initialised := True, in_curses := True,
                         buf := Map.empty, shown := Map.empty, keypad_on := True,
                         nodelay_on := True, echo_on := False, cbreak_on := True,
                         cursor_on := False\<rparr>\<rparr>))"
  by (simp add: create_screen_def on_surf_def win_def initscr_def keypad_def nodelay_def noecho_def
      cbreak_def curs_set_def curses_call_def need_init_def exc_simps)

lemma close_screen_open:
  assumes "stdscr g" "initialised (surf g)" "in_curses (surf g)"
  shows "\<exists>g'. close_screen g = Inr ((), g') \<and> cooked (surf g')"
  using assms
  by (simp add: close_screen_def on_surf_def win_def nocbreak_def keypad_def echo_def endwin_def
      curses_call_def need_init_def cooked_def exc_simps)

lemma close_screen_cooked:
  assumes "cooked (surf g)"
  shows "cooked (surf (final_state (close_screen g)))"
  using assms
  by (auto simp: close_screen_def on_surf_def win_def nocbreak_def keypad_def echo_def endwin_def
      curses_call_def need_init_def cooked_def exc_simps)

text \<open>C4: \<open>play\<close> always returns, for a player who types no more keys than those
  pending: \<open>create_screen\<close> puts the window in nodelay mode, so the loop cannot wait in
  \<open>getch\<close>. It leaves a terminal it found in cooked mode in cooked mode (curses mode
  left, cbreak off, echo on), whatever happened in between: a failed \<open>initscr\<close>, an
  exception in the loop, or the normal end of the game. This is the spec's
  guaranteed-release contract (section 5) for the \<open>try/finally\<close> of \<open>play\<close>.\<close>

theorem snake_play_restores_terminal:
  assumes "cooked (surf g)"
  shows "\<exists>r. snake_play g = Some r \<and> cooked (surf (final_state r))"
proof (cases "tty (surf g)")
  case False
  then have "snake_play g = Some (finally_res (Inl (SurfaceInitError, g)) close_screen)"
    by (simp add: snake_play_def create_screen_eq)
  moreover have "cooked (surf (final_state (finally_res (Inl (SurfaceInitError, g)) close_screen)))"
    using close_screen_cooked [OF assms] by (simp add: final_state_finally del: finally_res.simps)
  ultimately show ?thesis by blast
next
  case True
  then obtain g1 where c: "create_screen g = Inr ((), g1)" and
    g1: "stdscr g1" "initialised (surf g1)" "in_curses (surf g1)" "nodelay_on (surf g1)"
    by (simp add: create_screen_eq)
  obtain r where l: "game_loop g1 = Some r" using game_loop_returns [OF g1(4)] by blast
  from game_loop_keeps [OF l] g1 have
    "stdscr (final_state r)" "initialised (surf (final_state r))" "in_curses (surf (final_state r))"
    by (simp_all add: tty_modes_def)
  then obtain g2 where cl: "close_screen (final_state r) = Inr ((), g2)" and "cooked (surf g2)"
    using close_screen_open by blast
  then have "cooked (surf (final_state (finally_res r close_screen)))"
    by (simp add: final_state_finally)
  moreover have "snake_play g = Some (finally_res r close_screen)"
    by (simp add: snake_play_def c l)
  ultimately show ?thesis by blast
qed

theorem snake_play_restores_terminal_witness:
  "cooked (surf (snake_init (demo_term []) (sconst 3))) \<and>
   (\<exists>r. snake_play (snake_init (demo_term []) (sconst 3)) = Some r \<and> cooked (surf (final_state r)))"
proof -
  have c: "cooked (surf (snake_init (demo_term []) (sconst 3)))"
    by (simp add: cooked_def snake_init_def demo_term_def)
  from snake_play_restores_terminal [OF c] c show ?thesis by blast
qed

text \<open>C22: Without a terminal, \<open>play\<close> does not report the failure of \<open>initscr\<close>: its
  \<open>finally\<close> clause calls \<open>curses.nocbreak()\<close> before any successful \<open>initscr\<close>,
  and that \<open>curses.error\<close> replaces the original exception.\<close>

theorem snake_play_no_terminal:
  assumes "\<not> tty (surf g)" "\<not> initialised (surf g)"
  shows "snake_play g = Some (Inl (CursesError, g))"
  using assms
  by (simp add: snake_play_def create_screen_eq close_screen_def on_surf_def nocbreak_def
      curses_call_def need_init_def exc_simps)

theorem snake_play_no_terminal_witness:
  "snake_play (snake_init ((demo_term [])\<lparr>tty := False\<rparr>) (sconst 3)) =
     Some (Inl (CursesError, snake_init ((demo_term [])\<lparr>tty := False\<rparr>) (sconst 3)))"
  by (rule snake_play_no_terminal) (simp_all add: snake_init_def demo_term_def)

subsection \<open>Drawing, and a snake left heading right\<close>

lemma efor_addch_ok:
  assumes "stdscr g" "\<forall>p \<in> set ps. in_window (surf g) p"
  shows "efor (\<lambda>sq. win (addch (fst sq) (snd sq) c)) ps g =
           Inr ((), g\<lparr>surf := surf g\<lparr>buf := paint ps c (buf (surf g))\<rparr>\<rparr>)"
  using assms
proof (induction ps arbitrary: g)
  case Nil
  then show ?case by (simp add: paint_def exc_simps)
next
  case (Cons q ps)
  let ?g1 = "g\<lparr>surf := surf g\<lparr>buf := (buf (surf g))(q \<mapsto> (c, 0))\<rparr>\<rparr>"
  have step: "win (addch (fst q) (snd q) c) g = Inr ((), ?g1)"
    using Cons.prems by (cases q) (simp add: win_def on_surf_def addch_eq exc_simps)
  have "efor (\<lambda>sq. win (addch (fst sq) (snd sq) c)) ps ?g1 =
        Inr ((), ?g1\<lparr>surf := surf ?g1\<lparr>buf := paint ps c (buf (surf ?g1))\<rparr>\<rparr>)"
    using Cons.prems by (intro Cons.IH) (simp_all add: in_window_def)
  moreover have "paint ps c ((buf (surf g))(q \<mapsto> (c, 0))) = paint (q # ps) c (buf (surf g))"
    by (auto simp: paint_def)
  ultimately show ?case using step by simp
qed

lemma efor_addch_fail:
  assumes "stdscr g" "\<exists>p \<in> set ps. \<not> in_window (surf g) p"
  shows "\<exists>g'. efor (\<lambda>sq. win (addch (fst sq) (snd sq) c)) ps g = Inl (OutOfBounds, g')"
  using assms
proof (induction ps arbitrary: g)
  case Nil
  then show ?case by simp
next
  case (Cons q ps)
  show ?case
  proof (cases "in_window (surf g) q")
    case False
    then have "win (addch (fst q) (snd q) c) g = Inl (OutOfBounds, g)"
      using Cons.prems by (cases q) (simp add: win_def on_surf_def addch_eq exc_simps)
    then show ?thesis by simp
  next
    case True
    let ?g1 = "g\<lparr>surf := surf g\<lparr>buf := (buf (surf g))(q \<mapsto> (c, 0))\<rparr>\<rparr>"
    have step: "win (addch (fst q) (snd q) c) g = Inr ((), ?g1)"
      using Cons.prems True by (cases q) (simp add: win_def on_surf_def addch_eq exc_simps)
    have "\<exists>p \<in> set ps. \<not> in_window (surf ?g1) p"
      using Cons.prems True by (auto simp: in_window_def)
    then obtain g' where "efor (\<lambda>sq. win (addch (fst sq) (snd sq) c)) ps ?g1 = Inl (OutOfBounds, g')"
      using Cons.IH [of ?g1] Cons.prems by auto
    with step show ?thesis by simp
  qed
qed

lemma draw_screen_ok:
  assumes "stdscr g" "\<forall>p \<in> set (snake g). in_window (surf g) p" "food g = Some f"
    "in_window (surf g) f"
  shows "draw_screen g = Inr ((), g\<lparr>surf := surf g\<lparr>buf := render (snake g) f\<rparr>\<rparr>)"
proof -
  let ?g0 = "g\<lparr>surf := surf g\<lparr>buf := Map.empty\<rparr>\<rparr>"
  have c: "win clear g = Inr ((), ?g0)"
    using assms by (simp add: win_def on_surf_def clear_def exc_simps)
  have e: "efor (\<lambda>sq. win (addch (fst sq) (snd sq) SNAKE_CHAR)) (snake g) ?g0 =
           Inr ((), ?g0\<lparr>surf := surf ?g0\<lparr>buf := paint (snake g) SNAKE_CHAR Map.empty\<rparr>\<rparr>)"
    using efor_addch_ok [of ?g0 "snake g" SNAKE_CHAR] assms by (simp add: in_window_def)
  have "(paint (snake g) SNAKE_CHAR Map.empty)(f \<mapsto> (FOOD_CHAR, 0)) = render (snake g) f"
    by (auto simp: paint_def render_def)
  then show ?thesis
    using assms c e
    by (cases f) (simp add: draw_screen_def on_surf_def addch_eq exc_simps)
qed


lemma turn_none: "turn (-1) d = d"
  by (simp add: turn_def keypress_none)

lemma update_right:
  assumes wf: "snake_wf g" and r: "facing g = ''right''" and p: "pending (surf g) = []"
    and b: "\<forall>q \<in> set (snake g). in_window (surf g) q" and f: "food_ok g"
  shows "\<exists>g1. update_logic g = Inr (True, g1) \<and> snake_wf g1 \<and> facing g1 = ''right'' \<and>
           surf g1 = surf g \<and> snake g1 \<noteq> [] \<and>
           last (snake g1) = (fst (last (snake g)), snd (last (snake g)) + 1) \<and>
           set (snake g1) \<subseteq> set (snake g) \<union> {last (snake g1)} \<and>
           food g1 \<noteq> None \<and> food_ok g1"
proof -
  have nk: "next_key (surf g) = -1" using p by (simp add: next_key_def)
  have ne: "snake g \<noteq> []" using wf by (simp add: snake_wf_def)
  have lw: "in_window (surf g) (last (snake g))" using b ne by simp
  have ib: "in_bounds (lines (surf g)) (cols (surf g)) (fst (last (snake g)), snd (last (snake g)) + 1)"
    using lw by (simp add: in_window_def in_bounds_def)
  have tl_sub: "set (tl (snake g)) \<subseteq> set (snake g)" using ne by (cases "snake g") auto
  have hd_mem: "hd (tl (snake g) @ [x]) \<in> set (tl (snake g)) \<union> {x}" for x
    by (cases "tl (snake g)") auto
  show ?thesis
    using wf r p f ib nk tl_sub hd_mem [of "(fst (last (snake g)), snd (last (snake g)) + 1)"]
      draw_pos_in_window [of "surf g"]
    by (auto simp: update_logic_eq tick_simps turn_none directional_mapping_def add_tuples_def
        snake_wf_def food_ok_def split: option.splits)
qed


lemma draw_screen_fail:
  assumes "stdscr g" "\<exists>p \<in> set (snake g). \<not> in_window (surf g) p"
  shows "\<exists>g'. draw_screen g = Inl (OutOfBounds, g')"
proof -
  let ?g0 = "g\<lparr>surf := surf g\<lparr>buf := Map.empty\<rparr>\<rparr>"
  have c: "win clear g = Inr ((), ?g0)"
    using assms by (simp add: win_def on_surf_def clear_def exc_simps)
  obtain g' where e: "efor (\<lambda>sq. win (addch (fst sq) (snd sq) SNAKE_CHAR)) (snake g) ?g0 =
      Inl (OutOfBounds, g')"
    using efor_addch_fail [of ?g0 "snake g" SNAKE_CHAR] assms by auto
  show ?thesis using c e by (simp add: draw_screen_def exc_simps)
qed

lemma win_refresh_eq:
  "stdscr g \<Longrightarrow> win refresh g = Inr ((), g\<lparr>surf := surf g\<lparr>shown := buf (surf g)\<rparr>\<rparr>)"
  by (simp add: win_def on_surf_def refresh_def exc_simps)

lemma right_run:
  assumes "snake_wf g" "facing g = ''right''" "pending (surf g) = []"
    "\<forall>q \<in> set (snake g). in_window (surf g) q" "food_ok g"
  shows "\<exists>g'. game_loop g = Some (Inl (OutOfBounds, g'))"
  using assms
proof (induction "nat (cols (surf g) - snd (last (snake g)))" arbitrary: g rule: less_induct)
  case less
  from update_right [OF less.prems] obtain g1 where
    u: "update_logic g = Inr (True, g1)" and wf1: "snake_wf g1" and r1: "facing g1 = ''right''"
    and s1: "surf g1 = surf g" and ne1: "snake g1 \<noteq> []"
    and hd1: "last (snake g1) = (fst (last (snake g)), snd (last (snake g)) + 1)"
    and set1: "set (snake g1) \<subseteq> set (snake g) \<union> {last (snake g1)}"
    and f1: "food g1 \<noteq> None" "food_ok g1"
    by blast
  have st1: "stdscr g1" using wf1 by (simp add: snake_wf_def)
  have lw: "in_window (surf g) (last (snake g))"
    using less.prems(1,4) by (simp add: snake_wf_def)
  show ?case
  proof (cases "snd (last (snake g)) + 1 < cols (surf g)")
    case True
    have hw: "in_window (surf g1) (last (snake g1))"
      using True lw hd1 s1 by (simp add: in_window_def)
    have body1: "\<forall>q \<in> set (snake g1). in_window (surf g1) q"
      using set1 hw less.prems(4) s1 by auto
    from f1 obtain f where ff: "food g1 = Some f" "in_window (surf g1) f"
      by (auto simp: food_ok_def)
    define g2 where "g2 = g1\<lparr>surf := surf g1\<lparr>buf := render (snake g1) f\<rparr>\<rparr>"
    define g3 where "g3 = g2\<lparr>surf := surf g2\<lparr>shown := buf (surf g2)\<rparr>\<rparr>"
    have d: "draw_screen g1 = Inr ((), g2)"
      using draw_screen_ok [OF st1 body1 ff] by (simp add: g2_def)
    have rf: "win refresh g2 = Inr ((), g3)"
      using st1 by (simp add: win_refresh_eq g2_def g3_def)
    have t: "tick g = Inr (True, g3)" using u d rf by (simp add: tick_def exc_simps)
    have "food_ok g3" using ff by (simp add: food_ok_def g3_def g2_def)
    moreover have "snake_wf g3" "facing g3 = ''right''" "pending (surf g3) = []"
      "\<forall>q \<in> set (snake g3). in_window (surf g3) q"
      using wf1 r1 s1 less.prems(3) body1
      by (simp_all add: g3_def g2_def snake_wf_def)
    ultimately have inv3: "snake_wf g3" "facing g3 = ''right''" "pending (surf g3) = []"
      "\<forall>q \<in> set (snake g3). in_window (surf g3) q" "food_ok g3"
      by simp_all
    have "nat (cols (surf g3) - snd (last (snake g3))) < nat (cols (surf g) - snd (last (snake g)))"
      using True hd1 s1 by (simp add: g3_def g2_def)
    from less.hyps [OF this inv3] obtain g' where "game_loop g3 = Some (Inl (OutOfBounds, g'))"
      by blast
    with t show ?thesis by (simp add: game_loop.simps)
  next
    case False
    then have "\<not> in_window (surf g1) (last (snake g1))"
      using hd1 s1 by (simp add: in_window_def)
    then have "\<exists>p \<in> set (snake g1). \<not> in_window (surf g1) p" using ne1 by auto
    from draw_screen_fail [OF st1 this] obtain g2 where d: "draw_screen g1 = Inl (OutOfBounds, g2)"
      by blast
    have t: "tick g = Inl (OutOfBounds, g2)" using u d by (simp add: tick_def exc_simps)
    then show ?thesis by (simp add: game_loop.simps)
  qed
qed

text \<open>C17: \<open>_draw_screen\<close>, with the food inside the window, paints exactly the
  abstract picture \<open>render\<close> of the snake and the food into the window buffer when every
  segment is inside the window, and raises \<open>curses.error\<close> (a write out of bounds)
  when some segment is not.\<close>

theorem draw_screen_renders:
  assumes "stdscr g" "food g = Some f" "in_window (surf g) f"
  shows "((\<forall>p \<in> set (snake g). in_window (surf g) p) \<longrightarrow>
            draw_screen g = Inr ((), g\<lparr>surf := surf g\<lparr>buf := render (snake g) f\<rparr>\<rparr>)) \<and>
         ((\<exists>p \<in> set (snake g). \<not> in_window (surf g) p) \<longrightarrow>
            (\<exists>g'. draw_screen g = Inl (OutOfBounds, g')))"
  using draw_screen_ok [OF assms(1) _ assms(2,3)] draw_screen_fail [OF assms(1)] by blast

theorem draw_screen_renders_witness:
  "draw_screen ((demo_game [] (sconst 3))\<lparr>snake := [(0, 0), (0, 1)], food := Some (2, 2)\<rparr>) =
     Inr ((), (demo_game [] (sconst 3))\<lparr>snake := [(0, 0), (0, 1)], food := Some (2, 2),
       surf := surf (demo_game [] (sconst 3))\<lparr>buf := render [(0, 0), (0, 1)] (2, 2)\<rparr>\<rparr>)"
proof -
  let ?g = "(demo_game [] (sconst 3))\<lparr>snake := [(0, 0), (0, 1)], food := Some (2, 2)\<rparr>"
  have h: "stdscr ?g" "food ?g = Some (2, 2)" "in_window (surf ?g) (2, 2)"
    by (simp_all add: demo_simps in_window_def)
  have b: "\<forall>p \<in> set (snake ?g). in_window (surf ?g) p" by (simp add: demo_simps in_window_def)
  from draw_screen_renders [OF h] b show ?thesis by simp
qed

text \<open>C7: Left alone, the game always ends in an exception: on any terminal with a
  window, if no key is pressed, \<open>play\<close> returns with \<open>curses.error\<close> (a write out of
  bounds), after restoring the terminal. The snake starts at \<open>(0,0)\<close> facing right;
  the bound check \<open>0 < x <= COLS\<close> lets its head reach column \<open>COLS\<close>, one past the
  window, and \<open>_draw_screen\<close> then writes there.\<close>

theorem idle_game_ends_in_curses_error:
  assumes "tty t" "0 < lines t" "0 < cols t" "pending t = []"
  shows "\<exists>g'. snake_play (snake_init t r) = Some (Inl (OutOfBounds, g')) \<and> cooked (surf g')"
proof -
  obtain g1 where c: "create_screen (snake_init t r) = Inr ((), g1)"
    and inv: "snake_wf g1" "facing g1 = ''right''" "pending (surf g1) = []"
      "\<forall>q \<in> set (snake g1). in_window (surf g1) q" "food_ok g1"
    and g1: "stdscr g1" "initialised (surf g1)" "in_curses (surf g1)"
    using assms
    by (simp add: create_screen_eq snake_init_def snake_wf_def directional_mapping_def
        in_window_def food_ok_def)
  from right_run [OF inv] obtain g2 where l: "game_loop g1 = Some (Inl (OutOfBounds, g2))"
    by blast
  from game_loop_keeps [OF l] g1 have
    "stdscr g2" "initialised (surf g2)" "in_curses (surf g2)"
    by (simp_all add: tty_modes_def)
  then obtain g3 where cl: "close_screen g2 = Inr ((), g3)" and "cooked (surf g3)"
    using close_screen_open by blast
  moreover have "snake_play (snake_init t r) = Some (Inl (OutOfBounds, g3))"
    by (simp add: snake_play_def c l cl)
  ultimately show ?thesis by blast
qed

theorem idle_game_ends_in_curses_error_witness:
  "\<exists>g'. snake_play (snake_init (demo_term []) (sconst 3)) = Some (Inl (OutOfBounds, g')) \<and>
        cooked (surf g')"
  by (rule idle_game_ends_in_curses_error) (simp_all add: demo_term_def)

subsection \<open>Reachable states\<close>

lemma snake_inv_start:
  "create_screen (snake_init t r) = Inr ((), g) \<Longrightarrow> 0 < lines t \<Longrightarrow> 0 < cols t \<Longrightarrow> snake_inv g"
  by (auto simp: create_screen_eq snake_init_def snake_inv_def snake_wf_def directional_mapping_def
      in_window_def food_ok_def split: if_splits)

lemma update_logic_food:
  assumes "snake_wf g" "food_ok g" "update_logic g = Inr (b, g')"
  shows "food g' \<noteq> None \<and> food_ok g'"
proof -
  let ?l = "lines (surf g)" and ?c = "cols (surf g)"
  have "food g' = Some (draw_pos ?l ?c (rng g)) \<or> food g' = Some (draw_pos ?l ?c (stl (stl (rng g)))) \<or>
        (food g' = food g \<and> food g \<noteq> None)"
    using assms(1,3) by (auto simp: update_logic_eq tick_simps split: if_splits)
  moreover have "surf g' = surf g\<lparr>pending := tl (pending (surf g))\<rparr>"
    using assms(1,3) by (auto simp: update_logic_eq tick_simps split: if_splits)
  moreover have "0 < ?l" "0 < ?c" using assms(1) by (simp_all add: snake_wf_def)
  ultimately show ?thesis
    using assms(2) draw_pos_in_window [of "surf g"] by (auto simp: food_ok_def)
qed

lemma update_logic_wf:
  "snake_wf g \<Longrightarrow> update_logic g = Inr (b, g') \<Longrightarrow> snake_wf g'"
  using turn_known [of "facing g" "next_key (surf g)"]
  by (auto simp: update_logic_eq tick_simps snake_wf_def split: if_splits)

lemma snake_inv_step:
  assumes "snake_inv g" "tick g = Inr (True, g')"
  shows "snake_inv g'"
proof -
  from assms(2) obtain g4 g5 where
    u: "update_logic g = Inr (True, g4)" and d: "draw_screen g4 = Inr ((), g5)" and
    r: "win refresh g5 = Inr ((), g')"
    by (auto simp: tick_def ebind_eq_Inr ret_apply)
  have wf: "snake_wf g" "food_ok g" using assms(1) by (simp_all add: snake_inv_def)
  have wf4: "snake_wf g4" using update_logic_wf [OF wf(1) u] .
  have f4: "food g4 \<noteq> None" "food_ok g4" using update_logic_food [OF wf u] by simp_all
  have st4: "stdscr g4" using wf4 by (simp add: snake_wf_def)
  have body4: "\<forall>p \<in> set (snake g4). in_window (surf g4) p"
    using draw_screen_fail [OF st4] d by auto
  have same: "snake g' = snake g4" "facing g' = facing g4" "stdscr g' = stdscr g4"
    "food g' = food g4" "surf_frame (surf g') = surf_frame (surf g4)"
    using keeps_Inr [OF draw_screen_keeps_obj d] keeps_Inr [OF draw_screen_keeps_surf d]
      keeps_Inr [OF refresh_keeps_obj r] keeps_Inr [OF refresh_keeps_surf r]
    by simp_all
  show ?thesis
    using wf4 f4 body4 same
    by (auto simp: snake_inv_def snake_wf_def food_ok_def surf_frame_def in_window_def
        split: option.splits)
qed


lemma snake_chain_snoc:
  "xs \<noteq> [] \<Longrightarrow> snake_chain (xs @ [p]) \<longleftrightarrow> snake_chain xs \<and> adjacent (last xs) p"
  by (induction xs rule: snake_chain.induct) auto

lemma snake_chain_tl: "snake_chain xs \<Longrightarrow> snake_chain (tl xs)"
  by (induction xs rule: snake_chain.induct) auto

lemma snake_chain_move:
  assumes "snake_chain sn" "sn \<noteq> []" "adjacent (last sn) p"
  shows "snake_chain (tl sn @ [p])"
proof (cases "tl sn = []")
  case True
  then show ?thesis by simp
next
  case False
  then have "last (tl sn) = last sn" using assms(2) by (cases sn) auto
  then show ?thesis
    using False snake_chain_snoc [OF False] snake_chain_tl [OF assms(1)] assms(3) by simp
qed

lemma snake_chain_grow: "snake_chain sn \<Longrightarrow> snake_chain (hd sn # sn)"
  by (cases sn) (auto simp: adjacent_def)

lemma adjacent_step:
  "directional_mapping d = Some delta \<Longrightarrow> adjacent p (add_tuples p delta)"
  by (auto simp: directional_mapping_def adjacent_def add_tuples_def split: if_splits)

lemma update_logic_chain:
  assumes "snake_wf g" "snake_chain (snake g)" "update_logic g = Inr (b, g')"
  shows "snake_chain (snake g')"
proof -
  let ?d = "turn (next_key (surf g)) (facing g)"
  obtain delta where dm: "directional_mapping ?d = Some delta"
    using turn_known [of "facing g" "next_key (surf g)"] assms(1) by (auto simp: snake_wf_def)
  let ?nh = "add_tuples (last (snake g)) delta"
  have ne: "snake g \<noteq> []" using assms(1) by (simp add: snake_wf_def)
  have mv: "snake_chain (tl (snake g) @ [?nh])"
    using snake_chain_move [OF assms(2) ne adjacent_step [OF dm]] .
  have "snake g' = snake g \<or> snake g' = tl (snake g) @ [?nh] \<or>
        snake g' = hd (tl (snake g) @ [?nh]) # (tl (snake g) @ [?nh])"
    using assms(1,3) dm by (auto simp: update_logic_eq tick_simps split: if_splits prod.splits)
  then show ?thesis using assms(2) mv snake_chain_grow [OF mv] by auto
qed

lemma tick_chain:
  assumes "snake_wf g" "snake_chain (snake g)" "tick g = Inr (b, g')"
  shows "snake_chain (snake g')"
proof -
  from assms(3) obtain g4 g5 where
    u: "update_logic g = Inr (b, g4)" and d: "draw_screen g4 = Inr ((), g5)" and
    r: "win refresh g5 = Inr ((), g')"
    by (auto simp: tick_def ebind_eq_Inr ret_apply)
  have "snake g' = snake g4"
    using keeps_Inr [OF draw_screen_keeps_obj d] keeps_Inr [OF refresh_keeps_obj r] by simp
  then show ?thesis using update_logic_chain [OF assms(1,2) u] by simp
qed

lemma snake_reach_inv: "snake_reach g \<Longrightarrow> snake_inv g"
proof (induction rule: snake_reach.induct)
  case (start t r g)
  then show ?case by (rule snake_inv_start)
next
  case (step g g')
  then show ?case by (blast intro: snake_inv_step)
qed

text \<open>C16: The snake's body is always a path of unit steps: in every state the play
  loop reaches from \<open>create_screen\<close> through passes that return \<open>True\<close>, each segment
  is equal or adjacent to the next. A move appends a neighbour of the head and drops
  the tail; growth repeats the first segment.\<close>

theorem snake_reach_chain: "snake_reach g \<Longrightarrow> snake_chain (snake g)"
proof (induction rule: snake_reach.induct)
  case (start t r g)
  then have "snake g = [(0, 0)]" by (auto simp: create_screen_eq snake_init_def split: if_splits)
  then show ?case by simp
next
  case (step g g')
  have "snake_wf g" using snake_reach_inv [OF step.hyps(1)] by (simp add: snake_inv_def)
  then show ?case using tick_chain step by blast
qed

theorem snake_reach_chain_witness:
  "snake_reach (demo_game [] (sconst 3)) \<and> snake_chain (snake (demo_game [] (sconst 3)))"
proof -
  have r: "snake_reach (demo_game [] (sconst 3))"
    by (rule snake_reach.start [OF create_screen_demo]) (simp_all add: demo_term_def)
  with snake_reach_chain [OF r] show ?thesis by simp
qed

text \<open>C21: \<open>_update_logic\<close> never changes the score, on any state and whatever its
  outcome: eating the food does not count.\<close>

theorem update_logic_keeps_score: "score (final_state (update_logic g)) = score g"
proof -
  have "keeps score update_logic"
    unfolding update_logic_def ensure_food_def random_pos_def curses_LINES_def
      curses_COLS_def read_input_def move_def bound_check_def eat_def
    by (intro keeps_intros) simp_all
  then show ?thesis by (simp add: keeps_def)
qed

end
