(* ===== verification/Snake_Safety.thy ===== *)
theory Snake_Safety
  imports Snake
begin

text \<open>
  Type soundness and the error paths of the snake game (class \<open>Snake\<close> of
  \<open>src/snake.py\<close>), over the definitions of \<^theory_text>\<open>Snake\<close>. The object's
  well-formedness \<open>snake_wf\<close> plays the part of a typing of its fields: a non-empty
  \<open>snake\<close>, a \<open>facing\<close> that is a key of \<open>directional_mapping\<close>, a window in
  \<open>stdscr\<close>, and a terminal set up by \<open>create_screen\<close>. As for a typed language:
  \<^item> progress and preservation: on a well-formed object \<open>_update_logic\<close> returns and
    leaves a well-formed object, and a pass of the loop can only raise a write out of
    bounds, so the play loop ends with no other exception;
  \<^item> the exceptions of an ill-formed object, one per field: \<open>IndexError\<close> for an empty
    snake, \<open>KeyError\<close> for an unknown facing, \<open>AttributeError\<close> without a window or
    before \<open>initscr\<close>; and \<open>ValueError\<close> from \<open>randint\<close> on a terminal with no rows
    or no columns;
  \<^item> the order of a pass (update, draw, refresh): after every pass that returns, the
    physical screen shows exactly the picture of the state the update produced.
\<close>

subsection \<open>Lemmas\<close>

lemma efor_addch_error:
  "stdscr g \<Longrightarrow> efor (\<lambda>sq. win (addch (fst sq) (snd sq) c)) ps g = Inl (e, g') \<Longrightarrow> e = OutOfBounds"
proof (induction ps arbitrary: g)
  case Nil
  then show ?case by (simp add: exc_simps)
next
  case (Cons q ps)
  show ?case
  proof (cases "in_window (surf g) q")
    case False
    then have "win (addch (fst q) (snd q) c) g = Inl (OutOfBounds, g)"
      using Cons.prems by (cases q) (simp add: win_def on_surf_def addch_eq exc_simps)
    then show ?thesis using Cons.prems by simp
  next
    case True
    let ?g1 = "g\<lparr>surf := surf g\<lparr>buf := (buf (surf g))(q \<mapsto> (c, 0))\<rparr>\<rparr>"
    have "win (addch (fst q) (snd q) c) g = Inr ((), ?g1)"
      using Cons.prems True by (cases q) (simp add: win_def on_surf_def addch_eq exc_simps)
    then show ?thesis using Cons.prems Cons.IH [of ?g1] by simp
  qed
qed

lemma draw_screen_error:
  assumes "stdscr g" "food g \<noteq> None" "draw_screen g = Inl (e, g')"
  shows "e = OutOfBounds"
proof -
  let ?g0 = "g\<lparr>surf := surf g\<lparr>buf := Map.empty\<rparr>\<rparr>"
  have c: "win clear g = Inr ((), ?g0)"
    using assms by (simp add: win_def on_surf_def clear_def exc_simps)
  show ?thesis
  proof (cases "efor (\<lambda>sq. win (addch (fst sq) (snd sq) SNAKE_CHAR)) (snake g) ?g0")
    case (Inl es)
    then obtain e1 h where i: "efor (\<lambda>sq. win (addch (fst sq) (snd sq) SNAKE_CHAR)) (snake g) ?g0 = Inl (e1, h)"
      by (cases es) auto
    then have "draw_screen g = Inl (e1, h)" using c by (simp add: draw_screen_def exc_simps)
    then show ?thesis using assms efor_addch_error [OF _ i] by simp
  next
    case (Inr ug)
    then obtain g1 where e1: "efor (\<lambda>sq. win (addch (fst sq) (snd sq) SNAKE_CHAR)) (snake g) ?g0 = Inr ((), g1)"
      by (cases ug) auto
    have "stdscr g1 \<and> food g1 = food g"
      using keeps_Inr [OF keeps_efor [of "\<lambda>g. (stdscr g, food g)"] e1] assms(1)
      by (simp add: keeps_intros)
    then show ?thesis
      using assms c e1
      by (auto simp: draw_screen_def on_surf_def addch_def addstr_def exc_simps split: if_splits)
  qed
qed

lemma update_logic_food_some:
  "snake_wf g \<Longrightarrow> update_logic g = Inr (b, g') \<Longrightarrow> food g' \<noteq> None"
  by (auto simp: update_logic_eq tick_simps split: if_splits)

lemma tick_parts:
  assumes "tick g = Inr (b, g')"
  obtains g1 g2 where "update_logic g = Inr (b, g1)" "draw_screen g1 = Inr ((), g2)"
    "win refresh g2 = Inr ((), g')"
  using assms by (auto simp: tick_def ebind_eq_Inr ret_apply)

lemma tick_wf:
  assumes "snake_wf g" "tick g = Inr (b, g')"
  shows "snake_wf g'"
proof -
  obtain g1 g2 where u: "update_logic g = Inr (b, g1)" and d: "draw_screen g1 = Inr ((), g2)"
    and r: "win refresh g2 = Inr ((), g')"
    using assms(2) by (rule tick_parts)
  have w1: "snake_wf g1" by (rule update_logic_wf [OF assms(1) u])
  have "(snake g', facing g', stdscr g', food g') = (snake g1, facing g1, stdscr g1, food g1)"
    using keeps_Inr [OF draw_screen_keeps_obj d] keeps_Inr [OF refresh_keeps_obj r] by simp
  moreover have "surf_frame (surf g') = surf_frame (surf g1)"
    using keeps_Inr [OF draw_screen_keeps_surf d] keeps_Inr [OF refresh_keeps_surf r] by simp
  ultimately show ?thesis using w1 by (simp add: snake_wf_def surf_frame_def)
qed

lemma tick_error:
  assumes "snake_wf g" "tick g = Inl (e, g')"
  shows "e = OutOfBounds"
proof -
  have "\<exists>b g1. update_logic g = Inr (b, g1)"
    using assms(1) by (simp add: update_logic_eq split: prod.split)
  then obtain b g1 where u: "update_logic g = Inr (b, g1)" by blast
  have w1: "snake_wf g1" by (rule update_logic_wf [OF assms(1) u])
  have f1: "food g1 \<noteq> None" by (rule update_logic_food_some [OF assms(1) u])
  show ?thesis
  proof (cases "draw_screen g1")
    case (Inl es)
    then show ?thesis
      using assms(2) u w1 f1 draw_screen_error [of g1 "fst es" "snd es"]
      by (cases es) (simp add: tick_def snake_wf_def)
  next
    case (Inr ug)
    then obtain g2 where d: "draw_screen g1 = Inr ((), g2)" by (cases ug) auto
    have "stdscr g2" using keeps_Inr [OF draw_screen_keeps_obj d] w1 by (simp add: snake_wf_def)
    then show ?thesis using assms(2) u d by (simp add: tick_def win_refresh_eq exc_simps)
  qed
qed

lemma draw_screen_Inr:
  assumes "draw_screen g = Inr ((), g')"
  shows "\<exists>f. food g = Some f \<and> g' = g\<lparr>surf := surf g\<lparr>buf := render (snake g) f\<rparr>\<rparr>"
proof -
  have s: "stdscr g"
  proof (rule ccontr)
    assume "\<not> stdscr g"
    then have "draw_screen g = Inl (AttributeError, g)"
      by (simp add: draw_screen_def win_def exc_simps)
    with assms show False by simp
  qed
  have w: "\<forall>p \<in> set (snake g). in_window (surf g) p"
    using draw_screen_fail [OF s] assms by force
  let ?g1 = "g\<lparr>surf := surf g\<lparr>buf := paint (snake g) SNAKE_CHAR Map.empty\<rparr>\<rparr>"
  have pre: "draw_screen g = (case food g of None \<Rightarrow> Inl (TypeError, ?g1)
                | Some p \<Rightarrow> on_surf (addch (fst p) (snd p) FOOD_CHAR) ?g1)"
    using efor_addch_ok [of "g\<lparr>surf := surf g\<lparr>buf := Map.empty\<rparr>\<rparr>" "snake g" SNAKE_CHAR] s w
    by (simp add: draw_screen_def win_def on_surf_def clear_def in_window_def exc_simps
        split: option.split)
  obtain f where f: "food g = Some f" using assms pre by (cases "food g") auto
  have "in_window (surf g) f"
  proof (rule ccontr)
    assume "\<not> in_window (surf g) f"
    then have "draw_screen g = Inl (OutOfBounds, ?g1)"
      using pre f by (cases f) (simp add: on_surf_def addch_eq in_window_def exc_simps)
    with assms show False by simp
  qed
  then show ?thesis using draw_screen_ok [OF s w f] assms f by simp
qed

subsection \<open>Properties\<close>

text \<open>C5: Type soundness of the play loop: from a well-formed object, the loop of
  \<open>Snake.play\<close> can end with no exception but a write out of bounds (\<open>curses.error\<close>):
  never \<open>IndexError\<close>, \<open>KeyError\<close>, \<open>AttributeError\<close>, \<open>TypeError\<close> or \<open>ValueError\<close>.\<close>

theorem game_loop_type_sound:
  assumes "snake_wf g" "game_loop g = Some (Inl (e, g'))"
  shows "e = OutOfBounds"
proof -
  have "snake_wf g \<longrightarrow> (\<forall>e g'. r = Inl (e, g') \<longrightarrow> e = OutOfBounds)" if "game_loop g = Some r" for g r
    using that
  proof (rule game_loop_rule)
    fix g e g'
    assume "tick g = Inl (e, g')"
    then show "snake_wf g \<longrightarrow> (\<forall>e' g''. Inl (e, g') = Inl (e', g'') \<longrightarrow> e' = OutOfBounds)"
      using tick_error by blast
  next
    fix g g' r
    assume "tick g = Inr (True, g')" "snake_wf g' \<longrightarrow> (\<forall>e g''. r = Inl (e, g'') \<longrightarrow> e = OutOfBounds)"
    then show "snake_wf g \<longrightarrow> (\<forall>e g''. r = Inl (e, g'') \<longrightarrow> e = OutOfBounds)"
      using tick_wf by blast
  qed simp
  then show ?thesis using assms by blast
qed

theorem game_loop_type_sound_witness:
  "snake_wf ((demo_game [] (sconst 3))\<lparr>snake := [(0, 80)], food := Some (1, 1)\<rparr>) \<and>
   (\<exists>e g'. game_loop ((demo_game [] (sconst 3))\<lparr>snake := [(0, 80)], food := Some (1, 1)\<rparr>) =
            Some (Inl (e, g')) \<and> e = OutOfBounds)"
proof -
  let ?g = "(demo_game [] (sconst 3))\<lparr>snake := [(0, 80)], food := Some (1, 1)\<rparr>"
  have wf: "snake_wf ?g" using demo_wf [of "[]" "sconst 3"] by (simp add: snake_wf_def)
  have "\<exists>g1. update_logic ?g = Inr (False, g1) \<and> snake g1 = [(0, 80)] \<and> stdscr g1 \<and> surf g1 = surf ?g"
    by (subst update_logic_eq [OF wf]) (simp add: tick_simps demo_simps)
  then obtain g1 where u: "update_logic ?g = Inr (False, g1)" and g1: "snake g1 = [(0, 80)]"
    "stdscr g1" "surf g1 = surf ?g" by blast
  obtain g2 where "draw_screen g1 = Inl (OutOfBounds, g2)"
    using draw_screen_fail [of g1] g1 by (auto simp: in_window_def demo_simps)
  then have "tick ?g = Inl (OutOfBounds, g2)"
    using u by (simp add: tick_def exc_simps)
  then have "game_loop ?g = Some (Inl (OutOfBounds, g2))"
    by (subst game_loop.simps) simp
  then show ?thesis using wf game_loop_type_sound by blast
qed

text \<open>C12: The order of a pass (update, draw, refresh): after every pass of the loop that
  returns, the physical screen and the window buffer both show exactly the picture of
  the snake and the food the update produced.\<close>

theorem tick_shows_state:
  assumes "tick g = Inr (b, g')"
  shows "\<exists>f. food g' = Some f \<and> shown (surf g') = render (snake g') f \<and>
             buf (surf g') = shown (surf g')"
proof -
  obtain g1 g2 where u: "update_logic g = Inr (b, g1)" and d: "draw_screen g1 = Inr ((), g2)"
    and r: "win refresh g2 = Inr ((), g')"
    using assms by (rule tick_parts)
  obtain f where f: "food g1 = Some f" and g2: "g2 = g1\<lparr>surf := surf g1\<lparr>buf := render (snake g1) f\<rparr>\<rparr>"
    using draw_screen_Inr [OF d] by blast
  have "stdscr g2"
    using r by (cases "stdscr g2") (simp_all add: win_def exc_simps)
  then have "g' = g2\<lparr>surf := surf g2\<lparr>shown := buf (surf g2)\<rparr>\<rparr>"
    using r win_refresh_eq by simp
  then show ?thesis using f g2 by simp
qed

theorem tick_shows_state_witness:
  "\<exists>b g'. tick ((demo_game [] (sconst 3))\<lparr>snake := [(5, 5)], food := Some (1, 1)\<rparr>) = Inr (b, g') \<and>
     shown (surf g') (5, 6) = Some (SNAKE_CHAR, 0) \<and> shown (surf g') (1, 1) = Some (FOOD_CHAR, 0) \<and>
     shown (surf g') (5, 5) = None"
proof -
  let ?g = "(demo_game [] (sconst 3))\<lparr>snake := [(5, 5)], food := Some (1, 1)\<rparr>"
  have wf: "snake_wf ?g" using demo_wf [of "[]" "sconst 3"] by (simp add: snake_wf_def)
  have "\<exists>g1. update_logic ?g = Inr (True, g1) \<and> snake g1 = [(5, 6)] \<and> food g1 = Some (1, 1) \<and>
      stdscr g1 \<and> surf g1 = surf ?g"
    by (subst update_logic_eq [OF wf]) (simp add: tick_simps demo_simps)
  then obtain g1 where u: "update_logic ?g = Inr (True, g1)" and g1: "snake g1 = [(5, 6)]"
    "food g1 = Some (1, 1)" "stdscr g1" "surf g1 = surf ?g" by blast
  let ?g2 = "g1\<lparr>surf := surf g1\<lparr>buf := render (snake g1) (1, 1)\<rparr>\<rparr>"
  have d: "draw_screen g1 = Inr ((), ?g2)"
    using draw_screen_ok [of g1 "(1, 1)"] g1 by (simp add: in_window_def demo_simps)
  have "\<exists>g'. tick ?g = Inr (True, g') \<and> snake g' = [(5, 6)] \<and> food g' = Some (1, 1)"
    using u d g1 by (simp add: tick_def win_refresh_eq exc_simps)
  then obtain g' where t: "tick ?g = Inr (True, g')" "snake g' = [(5, 6)]" "food g' = Some (1, 1)"
    by blast
  then show ?thesis
    using tick_shows_state [OF t(1)] by (auto simp: render_def)
qed

text \<open>C19: The exceptions \<open>_update_logic\<close> raises on an object that is not well-formed,
  one per field: \<open>IndexError\<close> from \<open>self.snake[-1]\<close> on an empty snake, \<open>KeyError\<close>
  from \<open>directional_mapping[self.facing]\<close> on an unknown facing, \<open>AttributeError\<close> from
  \<open>self.stdscr.getch()\<close> without a window, and \<open>AttributeError\<close> from
  \<open>curses.LINES\<close> on a fresh object before \<open>initscr\<close> (nothing changed).\<close>

theorem update_logic_error_paths:
  assumes "snake_wf g"
  shows "(\<exists>g'. update_logic (g\<lparr>snake := []\<rparr>) = Inl (IndexError, g')) \<and>
         (directional_mapping d = None \<longrightarrow> keypress_movement_mapping (next_key (surf g)) = None \<longrightarrow>
            (\<exists>g'. update_logic (g\<lparr>facing := d\<rparr>) = Inl (KeyError, g'))) \<and>
         (food g \<noteq> None \<longrightarrow> update_logic (g\<lparr>stdscr := False\<rparr>) = Inl (AttributeError, g\<lparr>stdscr := False\<rparr>)) \<and>
         (\<not> initialised t \<longrightarrow> update_logic (snake_init t r) = Inl (AttributeError, snake_init t r))"
proof (intro conjI impI)
  show "\<exists>g'. update_logic (g\<lparr>snake := []\<rparr>) = Inl (IndexError, g')"
    using assms
    by (simp add: update_logic_def ensure_food_def random_pos_eq read_input_def win_def on_surf_def
        getch_def move_def snake_wf_def exc_simps split: list.split option.split)
  show "\<exists>g'. update_logic (g\<lparr>facing := d\<rparr>) = Inl (KeyError, g')"
    if d: "directional_mapping d = None" and k: "keypress_movement_mapping (next_key (surf g)) = None"
  proof -
    have w: "snake g \<noteq> []" "stdscr g" "initialised (surf g)" "nodelay_on (surf g)"
      "0 < lines (surf g)" "0 < cols (surf g)"
      using assms by (simp_all add: snake_wf_def)
    have "\<exists>g1. ensure_food (g\<lparr>facing := d\<rparr>) = Inr ((), g1) \<and> facing g1 = d \<and> snake g1 = snake g \<and>
        stdscr g1 \<and> surf g1 = surf g"
      using w by (simp add: ensure_food_def random_pos_eq exc_simps)
    then obtain g1 where e: "ensure_food (g\<lparr>facing := d\<rparr>) = Inr ((), g1)" and
      g1: "facing g1 = d" "snake g1 = snake g" "stdscr g1" "surf g1 = surf g" by blast
    let ?g2 = "g1\<lparr>surf := surf g1\<lparr>pending := tl (pending (surf g1))\<rparr>\<rparr>"
    have r: "read_input g1 = Inr ((), ?g2)"
      using k w g1
      by (auto simp: read_input_def win_def on_surf_def getch_def next_key_def exc_simps
          split: list.splits)
    have m: "move ?g2 = Inl (KeyError, ?g2)"
      using d w g1 by (simp add: move_def exc_simps)
    show ?thesis using e r m by (simp add: update_logic_def exc_simps)
  qed
  show "update_logic (g\<lparr>stdscr := False\<rparr>) = Inl (AttributeError, g\<lparr>stdscr := False\<rparr>)"
    if "food g \<noteq> None"
    using that by (auto simp: update_logic_def ensure_food_def read_input_def win_def exc_simps)
  show "update_logic (snake_init t r) = Inl (AttributeError, snake_init t r)" if "\<not> initialised t"
    using that
    by (simp add: update_logic_def ensure_food_def random_pos_def curses_LINES_def snake_init_def
        exc_simps)
qed

theorem update_logic_error_paths_witness:
  "(\<exists>g'. update_logic ((demo_game [] (sconst 3))\<lparr>facing := ''Right''\<rparr>) = Inl (KeyError, g')) \<and>
   update_logic (snake_init (demo_term []) (sconst 3)) = Inl (AttributeError, snake_init (demo_term []) (sconst 3)) \<and>
   update_logic ((demo_game [] (sconst 3))\<lparr>food := Some (1, 1), stdscr := False\<rparr>) =
     Inl (AttributeError, (demo_game [] (sconst 3))\<lparr>food := Some (1, 1), stdscr := False\<rparr>)"
proof -
  let ?g = "(demo_game [] (sconst 3))\<lparr>food := Some (1, 1)\<rparr>"
  have wf0: "snake_wf (demo_game [] (sconst 3))" by (rule demo_wf)
  have wf: "snake_wf ?g" using wf0 by (simp add: snake_wf_def)
  have k: "keypress_movement_mapping (next_key (surf (demo_game [] (sconst 3)))) = None"
    by (simp add: demo_simps)
  have "directional_mapping ''Right'' = None" by (simp add: directional_mapping_def)
  then show ?thesis
    using update_logic_error_paths [OF wf0, of "''Right''"] k
      update_logic_error_paths [OF wf, of "''Right''" "demo_term []" "sconst 3"]
    by (simp add: demo_term_def)
qed

text \<open>C20: On a terminal with no rows or no columns the first pass places the food
  with \<open>randint(0, -1)\<close>, which raises \<open>ValueError\<close>; \<open>play\<close> ends with it after
  restoring the terminal to cooked mode.\<close>

theorem play_on_empty_terminal:
  assumes "tty t" "lines t = 0 \<or> cols t = 0"
  shows "\<exists>g'. snake_play (snake_init t r) = Some (Inl (ValueError, g')) \<and> cooked (surf g')"
proof -
  obtain g1 where c: "create_screen (snake_init t r) = Inr ((), g1)" and g1: "stdscr g1"
    "initialised (surf g1)" "in_curses (surf g1)" "food g1 = None" "surf g1 = (surf g1)\<lparr>tty := tty t\<rparr>"
    "lines (surf g1) = lines t" "cols (surf g1) = cols t"
    using assms(1) by (simp add: create_screen_eq snake_init_def)
  have "\<exists>g2. update_logic g1 = Inl (ValueError, g2) \<and> stdscr g2 \<and> surf g2 = surf g1"
    using assms(2) g1
    by (auto simp: update_logic_def ensure_food_def random_pos_def curses_LINES_def curses_COLS_def
        on_rng_def randint_def exc_simps)
  then obtain g2 where u: "update_logic g1 = Inl (ValueError, g2)" and g2: "stdscr g2" "surf g2 = surf g1"
    by blast
  have l: "game_loop g1 = Some (Inl (ValueError, g2))"
    using u by (subst game_loop.simps) (simp add: tick_def exc_simps)
  obtain g3 where cl: "close_screen g2 = Inr ((), g3)" and ck: "cooked (surf g3)"
    using close_screen_open [of g2] g1 g2 by auto
  show ?thesis
    using c l cl ck by (simp add: snake_play_def)
qed

theorem play_on_empty_terminal_witness:
  "\<exists>g'. snake_play (snake_init ((demo_term [])\<lparr>cols := 0\<rparr>) (sconst 3)) = Some (Inl (ValueError, g')) \<and>
        cooked (surf g')"
  by (rule play_on_empty_terminal) (simp_all add: demo_term_def)

end
