(* ===== verification/Widget.thy ===== *)
theory Widget
  imports Surface
begin

text \<open>
  The rendering primitive \<open>Widget.draw_rect\<close> of \<open>src/snake.py\<close> (lines 12--31).
  A widget owns the window \<open>stdscr\<close>, so \<open>draw_rect\<close> is a computation on the curses
  surface: the top row \<open>/$$...$\<close>, the bottom row \<open>|___ /\<close> at row \<open>top + height\<close>,
  the rows in between in a \<open>for\<close> loop whose last pass draws \<open>|$$___|$$\<close> and whose
  other passes draw \<open>|$$   |$$\<close>, and the label at \<open>top_left + dims / 3\<close> truncated.
  Python computes \<open>int(top + h / 3)\<close> in floating point; the model takes the exact
  truncation \<open>trunc_div (3 * top + h) 3\<close>, which agrees on every size a terminal has.
  The abstract view of the picture is \<open>box_rows\<close>: the list of row strings stacked from
  the top-left corner. The lemmas show that \<open>draw_rect\<close> paints exactly these rows and
  the label when everything fits, that every row is \<open>width\<close> cells wide when
  \<open>width \<ge> 6\<close>, and when the method raises.
\<close>

subsection \<open>The rows of a rectangle\<close>

definition top_row :: "int \<Rightarrow> string" where
  "top_row w = ''/'' @ str_mul ''$'' (w - 1)"

definition bottom_row :: "int \<Rightarrow> string" where
  "bottom_row w = ''|'' @ str_mul ''_'' (w - 3) @ '' /''"

definition floor_row :: "int \<Rightarrow> string" where
  "floor_row w = ''|$$'' @ str_mul ''_'' (w - 6) @ ''|$$''"

definition side_row :: "int \<Rightarrow> string" where
  "side_row w = ''|$$'' @ str_mul '' '' (w - 6) @ ''|$$''"

text \<open>The body of the \<open>for i in range(top + 1, bottom)\<close> loop.\<close>

definition rect_side :: "int \<Rightarrow> int \<Rightarrow> int \<Rightarrow> int \<Rightarrow> (unit, surface) exc" where
  "rect_side bottom c w i =
     (if i = bottom - 1 then addstr (bottom - 1) c (floor_row w) 0
      else addstr i c (side_row w) 0)"

text \<open>\<open>Widget.draw_rect(top_left, dimensions, inner_text)\<close>; \<open>inner_text\<close> is
  \<open>None\<close> or a string, and an empty string is falsy like \<open>None\<close>.\<close>

definition draw_rect :: "pos \<Rightarrow> int \<times> int \<Rightarrow> string option \<Rightarrow> (unit, surface) exc" where
  "draw_rect top_left dims inner_text =
     (let bottom_left = (fst top_left + fst dims, snd top_left) in
      ebind (addstr (fst top_left) (snd top_left) (top_row (snd dims)) 0) (\<lambda>_.
      ebind (addstr (fst bottom_left) (snd bottom_left) (bottom_row (snd dims)) 0) (\<lambda>_.
      ebind (efor (rect_side (fst bottom_left) (snd top_left) (snd dims))
                  [fst top_left + 1 .. fst bottom_left - 1]) (\<lambda>_.
      case inner_text of
        None \<Rightarrow> ret ()
      | Some txt \<Rightarrow>
          if txt = [] then ret ()
          else addstr (trunc_div (3 * fst top_left + fst dims) 3)
                      (trunc_div (3 * snd top_left + snd dims) 3) txt 0))))"

text \<open>The abstract picture: the rows from the top-left corner downwards. A rectangle of
  height \<open>h\<close> has \<open>h + 1\<close> rows; from height 2 on, the row above the bottom one is the
  floor row.\<close>

definition box_rows :: "int \<Rightarrow> int \<Rightarrow> string list" where
  "box_rows h w =
     top_row w # (if 2 \<le> h then replicate (nat (h - 2)) (side_row w) @ [floor_row w] else []) @
     [bottom_row w]"

fun put_rows :: "int \<Rightarrow> int \<Rightarrow> string list \<Rightarrow> (pos \<Rightarrow> cell option) \<Rightarrow> (pos \<Rightarrow> cell option)" where
  "put_rows y x [] m = m"
| "put_rows y x (s # ss) m = put_rows (y + 1) x ss (put_str y x s 0 m)"

definition put_label :: "int \<Rightarrow> int \<Rightarrow> string option \<Rightarrow> (pos \<Rightarrow> cell option) \<Rightarrow> (pos \<Rightarrow> cell option)" where
  "put_label y x lab m = (case lab of None \<Rightarrow> m | Some txt \<Rightarrow> put_str y x txt 0 m)"

subsection \<open>Lemmas\<close>

lemma row_lengths:
  "length (top_row w) = Suc (nat (w - 1))"
  "length (bottom_row w) = 3 + nat (w - 3)"
  "length (floor_row w) = 6 + nat (w - 6)"
  "length (side_row w) = 6 + nat (w - 6)"
  by (simp_all add: top_row_def bottom_row_def floor_row_def side_row_def)

lemma box_rows_width: "6 \<le> w \<Longrightarrow> s \<in> set (box_rows h w) \<Longrightarrow> length s = nat w"
  by (auto simp: box_rows_def row_lengths)

lemma length_box_rows: "1 \<le> h \<Longrightarrow> length (box_rows h w) = nat h + 1"
  by (simp add: box_rows_def) arith

lemma rect_side_loop:
  assumes "0 \<le> a" "b - 1 < lines t" "0 \<le> c" "c + int (length (side_row w)) \<le> cols t"
  shows "efor (rect_side b c w) [a .. b - 1] t =
           Inr ((), t\<lparr>buf := put_rows a c (if a \<le> b - 1 then replicate (nat (b - 1 - a)) (side_row w) @ [floor_row w] else []) (buf t)\<rparr>)"
  using assms
proof (induction "nat (b - a)" arbitrary: a t)
  case 0
  then show ?case by (simp add: exc_simps)
next
  case (Suc n)
  show ?case
  proof (cases "a = b - 1")
    case True
    then show ?thesis
      using Suc.prems by (simp add: upto_rec1 rect_side_def addstr_def row_lengths exc_simps)
  next
    case False
    with Suc.hyps(2) have lt: "a < b - 1" by simp
    let ?t1 = "t\<lparr>buf := put_str a c (side_row w) 0 (buf t)\<rparr>"
    have step: "rect_side b c w a t = Inr ((), ?t1)"
      using Suc.prems lt by (simp add: rect_side_def addstr_def)
    have IH: "efor (rect_side b c w) [a + 1 .. b - 1] ?t1 =
       Inr ((), ?t1\<lparr>buf := put_rows (a + 1) c (replicate (nat (b - 1 - (a + 1))) (side_row w) @ [floor_row w]) (buf ?t1)\<rparr>)"
      using Suc.hyps(1) [of "a + 1" ?t1] Suc.hyps(2) Suc.prems lt by simp
    have rep: "replicate (nat (b - 1 - a)) (side_row w) = side_row w # replicate (nat (b - 1 - (a + 1))) (side_row w)"
      using lt by (simp add: Suc_nat_eq_nat_zadd1 flip: replicate_Suc)
    show ?thesis
      using lt step IH by (simp add: upto_rec1 rep exc_simps)
  qed
qed


lemma put_str_commute:
  "y1 \<noteq> y2 \<Longrightarrow> put_str y1 x1 s1 a1 (put_str y2 x2 s2 a2 m) = put_str y2 x2 s2 a2 (put_str y1 x1 s1 a1 m)"
  by (rule ext) (simp add: put_str_cell)

lemma put_rows_put_str:
  "y' < y \<or> y + int (length ss) \<le> y' \<Longrightarrow>
   put_rows y x ss (put_str y' x' s a m) = put_str y' x' s a (put_rows y x ss m)"
proof (induction ss arbitrary: y m)
  case Nil
  then show ?case by simp
next
  case (Cons s1 ss)
  have "y \<noteq> y'" using Cons.prems by auto
  then have "put_str y x s1 0 (put_str y' x' s a m) = put_str y' x' s a (put_str y x s1 0 m)"
    by (rule put_str_commute)
  moreover have "y' < y + 1 \<or> y + 1 + int (length ss) \<le> y'" using Cons.prems by auto
  ultimately show ?case using Cons.IH by simp
qed

lemma put_rows_cell:
  "put_rows y x ss m p =
     (if y \<le> fst p \<and> fst p < y + int (length ss) \<and> x \<le> snd p \<and>
         snd p < x + int (length (ss ! nat (fst p - y)))
      then Some (ss ! nat (fst p - y) ! nat (snd p - x), 0) else m p)"
proof (induction ss arbitrary: y m)
  case Nil
  then show ?case by auto
next
  case (Cons s ss)
  show ?case
  proof (cases "fst p = y")
    case True
    then show ?thesis using Cons.IH [of "y + 1"] by (simp add: put_str_cell)
  next
    case False
    then have "y < fst p \<Longrightarrow> nat (fst p - y) = Suc (nat (fst p - (y + 1)))" by simp
    with False show ?thesis using Cons.IH [of "y + 1"] by (auto simp: put_str_cell)
  qed
qed

lemma put_rows_append:
  "put_rows y x (xs @ ys) m = put_rows (y + int (length xs)) x ys (put_rows y x xs m)"
  by (induction xs arbitrary: y m) (simp_all add: algebra_simps)

lemma draw_rect_eq:
  assumes "0 \<le> r" "0 \<le> c" "1 \<le> h" "6 \<le> w" "r + h < lines t" "c + w \<le> cols t"
    and "\<forall>txt. lab = Some txt \<longrightarrow> c + w div 3 + int (length txt) \<le> cols t"
  shows "draw_rect (r, c) (h, w) lab t =
           Inr ((), t\<lparr>buf := put_label (r + h div 3) (c + w div 3) lab
                                 (put_rows r c (box_rows h w) (buf t))\<rparr>)"
proof -
  let ?rows = "if r + 1 \<le> r + h - 1 then replicate (nat (r + h - 1 - (r + 1))) (side_row w) @ [floor_row w] else []"
  define t1 where "t1 = t\<lparr>buf := put_str r c (top_row w) 0 (buf t)\<rparr>"
  define t2 where "t2 = t1\<lparr>buf := put_str (r + h) c (bottom_row w) 0 (buf t1)\<rparr>"
  define t3 where "t3 = t2\<lparr>buf := put_rows (r + 1) c ?rows (buf t2)\<rparr>"
  have len: "length (top_row w) = nat w" "length (bottom_row w) = nat w" "length (side_row w) = nat w"
    using assms(4) by (simp_all add: row_lengths)
  have s1: "addstr r c (top_row w) 0 t = Inr ((), t1)"
    using assms len by (simp add: addstr_def t1_def)
  have s2: "addstr (r + h) c (bottom_row w) 0 t1 = Inr ((), t2)"
    using assms len by (simp add: addstr_def t1_def t2_def)
  have s3: "efor (rect_side (r + h) c w) [r + 1 .. r + h - 1] t2 = Inr ((), t3)"
    using rect_side_loop [of "r + 1" "r + h" t2 c w] assms len
    by (simp add: t1_def t2_def t3_def)
  have rows: "?rows = (if 2 \<le> h then replicate (nat (h - 2)) (side_row w) @ [floor_row w] else [])"
    by simp
  have lrows: "r + 1 + int (length ?rows) = r + h"
    using assms(3) by auto
  have pic: "put_rows r c (box_rows h w) (buf t) = buf t3"
  proof (cases "1 < h")
    case True
    with lrows show ?thesis
      by (simp add: box_rows_def t3_def t2_def t1_def put_rows_append put_rows_put_str rows
          put_str_commute [of "r + h" "r + h - 1"])
  next
    case False
    with assms(3) have "h = 1" by simp
    then show ?thesis by (simp add: box_rows_def t3_def t2_def t1_def)
  qed
  have tr: "trunc_div (3 * r + h) 3 = r + h div 3" "trunc_div (3 * c + w) 3 = c + w div 3"
    using assms(1-4) by simp_all
  have lab: "(case lab of None \<Rightarrow> ret () | Some txt \<Rightarrow>
       if txt = [] then ret () else addstr (r + h div 3) (c + w div 3) txt 0) t3 =
       Inr ((), t3\<lparr>buf := put_label (r + h div 3) (c + w div 3) lab (buf t3)\<rparr>)"
  proof (cases lab)
    case None
    then show ?thesis by (simp add: put_label_def exc_simps)
  next
    case (Some lb)
    have "0 \<le> h div 3" "h div 3 \<le> h" "0 \<le> w div 3" using assms(3,4) by simp_all
    then show ?thesis
      using Some assms by (simp add: put_label_def addstr_def exc_simps t3_def t2_def t1_def)
  qed
  have d: "draw_rect (r, c) (h, w) lab =
     ebind (addstr r c (top_row w) 0) (\<lambda>_.
     ebind (addstr (r + h) c (bottom_row w) 0) (\<lambda>_.
     ebind (efor (rect_side (r + h) c w) [r + 1 .. r + h - 1]) (\<lambda>_.
     (case lab of None \<Rightarrow> ret () | Some lb \<Rightarrow>
        if lb = [] then ret () else addstr (r + h div 3) (c + w div 3) lb 0))))"
    by (simp add: draw_rect_def tr cong: option.case_cong if_cong)
  have "draw_rect (r, c) (h, w) lab t = (case lab of None \<Rightarrow> ret () | Some lb \<Rightarrow>
        if lb = [] then ret () else addstr (r + h div 3) (c + w div 3) lb 0) t3"
    using s1 s2 s3 by (simp add: d)
  also have "\<dots> = Inr ((), t3\<lparr>buf := put_label (r + h div 3) (c + w div 3) lab (buf t3)\<rparr>)"
    by (rule lab)
  also have "t3\<lparr>buf := put_label (r + h div 3) (c + w div 3) lab (buf t3)\<rparr> =
      t\<lparr>buf := put_label (r + h div 3) (c + w div 3) lab (put_rows r c (box_rows h w) (buf t))\<rparr>"
    using pic by (simp add: t3_def t2_def t1_def)
  finally show ?thesis .
qed

lemma draw_rect_fails:
  assumes "6 \<le> w" "\<not> (0 \<le> r \<and> 0 \<le> c \<and> r + h < lines t \<and> c + w \<le> cols t)"
  shows "\<exists>t'. draw_rect (r, c) (h, w) lab t = Inl (OutOfBounds, t')"
proof (cases "0 \<le> r \<and> r < lines t \<and> 0 \<le> c \<and> c + w \<le> cols t")
  case True
  let ?t1 = "t\<lparr>buf := put_str r c (top_row w) 0 (buf t)\<rparr>"
  have "length (top_row w) = nat w" using assms(1) by (simp add: row_lengths)
  then have s1: "addstr r c (top_row w) 0 t = Inr ((), ?t1)"
    using True assms(1) by (simp add: addstr_def)
  have s2: "addstr (r + h) c (bottom_row w) 0 ?t1 = Inl (OutOfBounds, ?t1)"
    using True assms by (simp add: addstr_def)
  show ?thesis using s1 s2 by (simp add: draw_rect_def)
next
  case False
  have "length (top_row w) = nat w" using assms(1) by (simp add: row_lengths)
  then have "addstr r c (top_row w) 0 t = Inl (OutOfBounds, t)"
    using False assms(1) by (auto simp: addstr_def)
  then show ?thesis by (simp add: draw_rect_def)
qed

subsection \<open>Properties of \<open>draw_rect\<close>\<close>

text \<open>C8: When the rectangle fits the window (top-left inside, \<open>top + height\<close> above the
  last line, \<open>left + width\<close> at most \<open>COLS\<close>, width at least 6, height at least 1, and
  the label fitting its row), \<open>draw_rect\<close> raises nothing and changes only the window
  buffer: the label's cells hold the label, and every other cell holds the rectangle's
  glyph when it lies in rows \<open>top .. top + height\<close> (height + 1 rows) and columns
  \<open>left .. left + width - 1\<close>, and its old content otherwise.\<close>

theorem draw_rect_paints:
  assumes "0 \<le> r" "0 \<le> c" "1 \<le> h" "6 \<le> w" "r + h < lines t" "c + w \<le> cols t"
    and "\<forall>txt. lab = Some txt \<longrightarrow> c + w div 3 + int (length txt) \<le> cols t"
  shows "\<exists>t'. draw_rect (r, c) (h, w) lab t = Inr ((), t') \<and> t' = t\<lparr>buf := buf t'\<rparr> \<and>
     (\<forall>txt. lab = Some txt \<longrightarrow>
        (\<forall>i < length txt. buf t' (r + h div 3, c + w div 3 + int i) = Some (txt ! i, 0))) \<and>
     (\<forall>p. (\<nexists>txt. lab = Some txt \<and> fst p = r + h div 3 \<and> c + w div 3 \<le> snd p \<and>
                  snd p < c + w div 3 + int (length txt)) \<longrightarrow>
          buf t' p = (if r \<le> fst p \<and> fst p \<le> r + h \<and> c \<le> snd p \<and> snd p < c + w
                      then Some (box_rows h w ! nat (fst p - r) ! nat (snd p - c), 0)
                      else buf t p))"
proof -
  let ?m = "put_rows r c (box_rows h w) (buf t)"
  have eq: "draw_rect (r, c) (h, w) lab t =
      Inr ((), t\<lparr>buf := put_label (r + h div 3) (c + w div 3) lab ?m\<rparr>)"
    using draw_rect_eq assms by blast
  have rows: "\<And>i. i < length (box_rows h w) \<Longrightarrow> length (box_rows h w ! i) = nat w"
    using box_rows_width [OF assms(4)] nth_mem by blast
  have box: "?m p = (if r \<le> fst p \<and> fst p \<le> r + h \<and> c \<le> snd p \<and> snd p < c + w
                    then Some (box_rows h w ! nat (fst p - r) ! nat (snd p - c), 0) else buf t p)" for p
  proof -
    have "r \<le> fst p \<and> fst p < r + int (length (box_rows h w)) \<longleftrightarrow> r \<le> fst p \<and> fst p \<le> r + h"
      using length_box_rows [OF assms(3), of w] assms(3) by auto
    moreover have "r \<le> fst p \<Longrightarrow> fst p \<le> r + h \<Longrightarrow> length (box_rows h w ! nat (fst p - r)) = nat w"
      using rows length_box_rows [OF assms(3), of w] by (simp add: nat_le_iff)
    ultimately show ?thesis using assms(4) by (auto simp: put_rows_cell)
  qed
  show ?thesis
    using eq
    by (cases lab) (auto simp: put_label_def put_str_cell box)
qed

theorem draw_rect_paints_witness:
  "\<exists>t'. draw_rect (0, 0) (3, 25) (Some ''Play'') (demo_term []) = Inr ((), t') \<and>
        buf t' (1, 8) = Some (CHR ''P'', 0) \<and> buf t' (3, 0) = Some (box_rows 3 25 ! 3 ! 0, 0) \<and>
        buf t' (4, 0) = None"
proof -
  obtain t' where t': "draw_rect (0, 0) (3, 25) (Some ''Play'') (demo_term []) = Inr ((), t')"
    "\<forall>i < 4. buf t' (1, 8 + int i) = Some (''Play'' ! i, 0)"
    "\<forall>p. \<not> (fst p = 1 \<and> 8 \<le> snd p \<and> snd p < 12) \<longrightarrow>
        buf t' p = (if 0 \<le> fst p \<and> fst p \<le> 3 \<and> 0 \<le> snd p \<and> snd p < 25
                    then Some (box_rows 3 25 ! nat (fst p) ! nat (snd p), 0) else buf (demo_term []) p)"
    using draw_rect_paints [of 0 0 3 25 "demo_term []" "Some ''Play''"] by (auto simp: demo_term_def)
  show ?thesis
    using t'(1) t'(2) [rule_format, of 0] t'(3) [rule_format, of "(3, 0)"] t'(3) [rule_format, of "(4, 0)"]
    by (auto simp: demo_term_def)
qed

text \<open>C18: For a rectangle at least 6 wide and 1 high whose label fits its row,
  \<open>draw_rect\<close> returns normally exactly when the rectangle lies in the window
  (\<open>0 \<le> top\<close>, \<open>0 \<le> left\<close>, \<open>top + height < LINES\<close>, \<open>left + width \<le> COLS\<close>), and
  otherwise raises \<open>curses.error\<close> for a write out of bounds: it neither clips nor checks.\<close>

theorem draw_rect_outcome:
  assumes "6 \<le> w" "1 \<le> h" "\<forall>txt. lab = Some txt \<longrightarrow> c + w div 3 + int (length txt) \<le> cols t"
  shows "(case draw_rect (r, c) (h, w) lab t of
            Inl (e, _) \<Rightarrow> e = OutOfBounds \<and> \<not> (0 \<le> r \<and> 0 \<le> c \<and> r + h < lines t \<and> c + w \<le> cols t)
          | Inr _ \<Rightarrow> 0 \<le> r \<and> 0 \<le> c \<and> r + h < lines t \<and> c + w \<le> cols t)"
proof (cases "0 \<le> r \<and> 0 \<le> c \<and> r + h < lines t \<and> c + w \<le> cols t")
  case True
  then show ?thesis using draw_rect_eq [of r c h w t lab] assms by simp
next
  case False
  then obtain t' where "draw_rect (r, c) (h, w) lab t = Inl (OutOfBounds, t')"
    using draw_rect_fails [OF assms(1)] by blast
  with False show ?thesis by simp
qed

theorem draw_rect_outcome_witness:
  "\<exists>t'. draw_rect (20, 0) (4, 25) (Some ''Play'') (demo_term []) = Inl (OutOfBounds, t')"
  using draw_rect_outcome [of 25 4 "Some ''Play''" 0 "demo_term []" 20]
  by (auto simp: demo_term_def split: sum.splits)

end
