(* ===== verification/Engine.thy ===== *)
theory Engine
  imports Widget
begin

text \<open>
  The menu and the engine that owns it (\<open>src/snake.py\<close>, classes \<open>MainMenu\<close> and
  \<open>CursesGameEngine\<close>, and the module-level entry point at the end of the file):
  \<^item> \<open>readlines\<close> is Python's \<open>f.readlines()\<close> on the title-art file's content (the
    file is an input: \<open>None\<close> when it is missing);
  \<^item> \<open>menu_draw\<close> is \<open>MainMenu.draw\<close>: the title art in colour pair 1 from row 0, the two
    buttons through \<open>draw_rect\<close>, then \<open>refresh\<close>;
  \<^item> \<open>busy_wait\<close> is the loop \<open>while not main_menu.chosen_button: pass\<close>, a
    \<^theory_text>\<open>partial_function (option)\<close> whose value \<open>None\<close> is a loop that never ends;
  \<^item> \<open>engine_init\<close>, \<open>engine_play\<close> and \<open>engine_del\<close> are \<open>__init__\<close>, \<open>play\<close> and
    \<open>__del__\<close>; \<open>main\<close> is the entry point followed by the finaliser of the module
    global \<open>engine\<close> at interpreter exit.
  The lemmas show that the busy wait never ends, so the entry point never prints
  \<open>Done\<close> and never reaches the snake game, and give the menu's picture and the exact
  condition under which it draws.
\<close>

subsection \<open>Reading the title art\<close>

text \<open>\<open>f.readlines()\<close>: the lines of the content, each keeping its \<open>'\n'\<close>; a last line
  without one is kept as it is.\<close>

fun readlines :: "string \<Rightarrow> string list" where
  "readlines [] = []"
| "readlines (ch # cs) =
     (if ch = CHR ''\<newline>'' then [ch] # readlines cs
      else (case readlines cs of [] \<Rightarrow> [[ch]] | l # ls \<Rightarrow> (ch # l) # ls))"

subsection \<open>\<open>MainMenu\<close>\<close>

text \<open>A \<open>MainMenu\<close> object: \<open>hovering_button\<close> and \<open>chosen_button\<close> (an int or
  \<open>None\<close>); its \<open>stdscr\<close> is the one window of the surface.\<close>

record main_menu =
  hovering_button :: int
  chosen_button :: "int option"

definition menu_init :: main_menu where
  "menu_init = \<lparr>hovering_button = 1, chosen_button = None\<rparr>"

text \<open>Python's truth value of \<open>chosen_button\<close>: \<open>None\<close> and \<open>0\<close> are false.\<close>

definition py_truthy :: "int option \<Rightarrow> bool" where
  "py_truthy v = (case v of None \<Rightarrow> False | Some n \<Rightarrow> n \<noteq> 0)"

text \<open>\<open>MainMenu.draw\<close>: \<open>open\<close> fails when the file is missing; each line \<open>i\<close> of the
  art is written at \<open>(i, 0)\<close> in colour pair 1.\<close>

definition menu_draw :: "string option \<Rightarrow> (unit, surface) exc" where
  "menu_draw asset =
     (case asset of
        None \<Rightarrow> throw AssetNotFound
      | Some content \<Rightarrow>
          (let main_menu_art = readlines content;
               play_button_location = (int (length main_menu_art) + 2, 1);
               settings_button_location = (int (length main_menu_art) + 2, 34) in
           ebind (efor (\<lambda>(i, line). addstr (int i) 0 line (color_pair 1))
                       (enumerate 0 main_menu_art)) (\<lambda>_.
           ebind (draw_rect play_button_location (3, 25) (Some ''Play'')) (\<lambda>_.
           ebind (draw_rect settings_button_location (3, 25) (Some ''Settings'')) (\<lambda>_.
           refresh)))))"

text \<open>\<open>while not main_menu.chosen_button: pass\<close>: the body changes nothing.\<close>

partial_function (option) busy_wait :: "main_menu \<Rightarrow> surface \<Rightarrow> surface option" where
  "busy_wait m t = (if \<not> py_truthy (chosen_button m) then busy_wait m t else Some t)"

subsection \<open>\<open>CursesGameEngine\<close>\<close>

datatype game_state = UNKNOWN | MAIN_MENU | SETTING

record engine =
  game_state :: game_state

text \<open>\<open>__init__\<close>: set up the terminal, then \<open>game_state = UNKNOWN\<close>.\<close>

definition engine_init :: "(engine, surface) exc" where
  "engine_init =
     ebind initscr (\<lambda>_.
     ebind (keypad True) (\<lambda>_.
     ebind (curs_set False) (\<lambda>_.
     ebind noecho (\<lambda>_.
     ebind cbreak (\<lambda>_.
     ebind start_color (\<lambda>_.
     ebind (init_pair 1 COLOR_GREEN COLOR_BLACK) (\<lambda>_.
     ret \<lparr>game_state = UNKNOWN\<rparr>)))))))"

text \<open>\<open>play\<close>: draw a new menu and wait for a choice; \<open>None\<close> is a wait that never
  ends. The engine object is not changed.\<close>

definition engine_play ::
  "string option \<Rightarrow> engine \<Rightarrow> surface \<Rightarrow> ((error \<times> surface) + (unit \<times> surface)) option" where
  "engine_play asset e t =
     (let main_menu = menu_init in
      case menu_draw asset t of
        Inl es \<Rightarrow> Some (Inl es)
      | Inr (_, t') \<Rightarrow> map_option (\<lambda>t''. Inr ((), t'')) (busy_wait main_menu t'))"

text \<open>\<open>__del__\<close>: restore the terminal. An exception raised here is printed and
  ignored by Python, so only the state it leaves matters (\<open>final_state\<close>).\<close>

definition engine_del :: "(unit, surface) exc" where
  "engine_del =
     ebind nocbreak (\<lambda>_.
     ebind echo (\<lambda>_.
     ebind endwin (\<lambda>_.
     keypad False)))"

subsection \<open>The entry point\<close>

text \<open>\<open>engine = CursesGameEngine(); engine.play(); print('Done')\<close>. The result is the
  printed lines and the terminal, or the exception that ends the process; in both cases
  the finaliser of the module global \<open>engine\<close> runs at interpreter exit. When
  \<open>__init__\<close> raises there is no \<open>engine\<close>. \<open>None\<close> is a process that never ends.\<close>

definition main ::
  "string option \<Rightarrow> surface \<Rightarrow> ((error \<times> surface) + (string list \<times> surface)) option" where
  "main asset t =
     (case engine_init t of
        Inl es \<Rightarrow> Some (Inl es)
      | Inr (engine, t1) \<Rightarrow>
          map_option (\<lambda>r. case r of
                             Inl (err, t2) \<Rightarrow> Inl (err, final_state (engine_del t2))
                           | Inr (_, t2) \<Rightarrow> Inr ([''Done''], final_state (engine_del t2)))
            (engine_play asset engine t1))"

subsection \<open>The menu's picture\<close>

text \<open>The cells the title art occupies from row \<open>k\<close>, the condition under which every
  line of it is written inside the window, the condition under which the whole menu is,
  and the picture the menu leaves in the buffer.\<close>

fun put_art :: "nat \<Rightarrow> nat \<Rightarrow> string list \<Rightarrow> (pos \<Rightarrow> cell option) \<Rightarrow> (pos \<Rightarrow> cell option)" where
  "put_art k a [] m = m"
| "put_art k a (l # ls) m = put_art (Suc k) a ls (put_str (int k) 0 l a m)"

definition art_fits :: "nat \<Rightarrow> string list \<Rightarrow> surface \<Rightarrow> bool" where
  "art_fits k ls t \<longleftrightarrow> (\<forall>(i, l) \<in> set (enumerate k ls). int i < lines t \<and> int (length l) \<le> cols t)"

definition menu_fits :: "string list \<Rightarrow> surface \<Rightarrow> bool" where
  "menu_fits ls t \<longleftrightarrow>
     (\<forall>l \<in> set ls. int (length l) \<le> cols t) \<and> int (length ls) + 5 < lines t \<and> 59 \<le> cols t"

definition menu_picture :: "string list \<Rightarrow> (pos \<Rightarrow> cell option) \<Rightarrow> (pos \<Rightarrow> cell option)" where
  "menu_picture ls m =
     (let n = int (length ls) in
      put_label (n + 3) 42 (Some ''Settings'') (put_rows (n + 2) 34 (box_rows 3 25)
        (put_label (n + 3) 9 (Some ''Play'') (put_rows (n + 2) 1 (box_rows 3 25)
          (put_art 0 (color_pair 1) ls m)))))"

subsection \<open>Lemmas\<close>

lemma busy_wait_eq: "busy_wait m t = (if py_truthy (chosen_button m) then Some t else None)"
proof (cases "py_truthy (chosen_button m)")
  case True
  then show ?thesis by (subst busy_wait.simps) simp
next
  case False
  have "py_truthy (chosen_button m)" if "busy_wait m t = Some r" for r
    by (rule busy_wait.raw_induct [where P = "\<lambda>m t y. py_truthy (chosen_button m)", OF _ that])
      (auto split: if_splits)
  with False show ?thesis by (cases "busy_wait m t") auto
qed

lemma art_loop_ok:
  "art_fits k ls t \<Longrightarrow>
   efor (\<lambda>(i, line). addstr (int i) 0 line a) (enumerate k ls) t =
     Inr ((), t\<lparr>buf := put_art k a ls (buf t)\<rparr>)"
  by (induction ls arbitrary: k t) (auto simp: art_fits_def addstr_def exc_simps)

lemma art_loop_fail:
  "\<not> art_fits k ls t \<Longrightarrow>
   \<exists>t'. efor (\<lambda>(i, line). addstr (int i) 0 line a) (enumerate k ls) t = Inl (OutOfBounds, t')"
  by (induction ls arbitrary: k t) (auto simp: art_fits_def addstr_def exc_simps)

lemma menu_draw_keeps [keeps_intros]: "keeps surf_frame (menu_draw asset)"
  unfolding menu_draw_def draw_rect_def rect_side_def
  by (intro keeps_intros)

lemma art_fits_menu: "menu_fits ls t \<Longrightarrow> art_fits 0 ls t"
  by (auto simp: menu_fits_def art_fits_def in_set_enumerate_eq)

lemma art_fits_lines:
  assumes "art_fits 0 ls t"
  shows "\<forall>l \<in> set ls. int (length l) \<le> cols t"
proof
  fix l assume "l \<in> set ls"
  then obtain i where "i < length ls" "l = ls ! i" by (auto simp: in_set_conv_nth)
  then have "(i, l) \<in> set (enumerate 0 ls)" by (auto simp: in_set_enumerate_eq)
  then show "int (length l) \<le> cols t" using assms by (auto simp: art_fits_def)
qed

lemma menu_draw_steps:
  assumes "art_fits 0 (readlines s) t"
  shows "menu_draw (Some s) t =
     ebind (draw_rect (int (length (readlines s)) + 2, 1) (3, 25) (Some ''Play'')) (\<lambda>_.
     ebind (draw_rect (int (length (readlines s)) + 2, 34) (3, 25) (Some ''Settings'')) (\<lambda>_. refresh))
       (t\<lparr>buf := put_art 0 (color_pair 1) (readlines s) (buf t)\<rparr>)"
  by (simp add: menu_draw_def Let_def art_loop_ok [OF assms] exc_simps)

lemma menu_draw_ok:
  assumes "menu_fits (readlines s) t"
  shows "menu_draw (Some s) t =
           Inr ((), t\<lparr>buf := menu_picture (readlines s) (buf t),
                      shown := menu_picture (readlines s) (buf t)\<rparr>)"
proof -
  let ?ls = "readlines s"
  let ?n = "int (length ?ls)"
  let ?t1 = "t\<lparr>buf := put_art 0 (color_pair 1) ?ls (buf t)\<rparr>"
  let ?t2 = "?t1\<lparr>buf := put_label (3 + ?n) 9 (Some ''Play'') (put_rows (?n + 2) 1 (box_rows 3 25) (buf ?t1))\<rparr>"
  let ?t3 = "?t2\<lparr>buf := put_label (3 + ?n) 42 (Some ''Settings'') (put_rows (?n + 2) 34 (box_rows 3 25) (buf ?t2))\<rparr>"
  have fit: "?n + 5 < lines t" "59 \<le> cols t" using assms by (simp_all add: menu_fits_def)
  have p: "draw_rect (?n + 2, 1) (3, 25) (Some ''Play'') ?t1 = Inr ((), ?t2)"
    using draw_rect_eq [of "?n + 2" 1 3 25 ?t1 "Some ''Play''"] fit by simp
  have q: "draw_rect (?n + 2, 34) (3, 25) (Some ''Settings'') ?t2 = Inr ((), ?t3)"
    using draw_rect_eq [of "?n + 2" 34 3 25 ?t2 "Some ''Settings''"] fit by simp
  show ?thesis
    unfolding menu_draw_steps [OF art_fits_menu [OF assms]] ebind_Inr [of "draw_rect (?n + 2, 1) (3, 25) (Some ''Play'')" ?t1, OF p]
      ebind_Inr [of "draw_rect (?n + 2, 34) (3, 25) (Some ''Settings'')" ?t2, OF q]
    by (simp add: refresh_def menu_picture_def emodify_apply Let_def add.commute [of _ 3])
qed

lemma menu_draw_fail:
  assumes "\<not> menu_fits (readlines s) t"
  shows "\<exists>t'. menu_draw (Some s) t = Inl (OutOfBounds, t')"
proof (cases "art_fits 0 (readlines s) t")
  case False
  then obtain t' where "efor (\<lambda>(i, line). addstr (int i) 0 line (color_pair 1))
                          (enumerate 0 (readlines s)) t = Inl (OutOfBounds, t')"
    using art_loop_fail by blast
  then show ?thesis by (simp add: menu_draw_def Let_def)
next
  case art: True
  let ?n = "int (length (readlines s))"
  let ?t1 = "t\<lparr>buf := put_art 0 (color_pair 1) (readlines s) (buf t)\<rparr>"
  show ?thesis
  proof (cases "?n + 5 < lines t \<and> 26 \<le> cols t")
    case False
    then obtain t' where "draw_rect (?n + 2, 1) (3, 25) (Some ''Play'') ?t1 = Inl (OutOfBounds, t')"
      using draw_rect_fails [of 25 "?n + 2" 1 3 ?t1] by auto
    then show ?thesis by (simp add: menu_draw_steps [OF art])
  next
    case True
    let ?t2 = "?t1\<lparr>buf := put_label (3 + ?n) 9 (Some ''Play'') (put_rows (?n + 2) 1 (box_rows 3 25) (buf ?t1))\<rparr>"
    have p: "draw_rect (?n + 2, 1) (3, 25) (Some ''Play'') ?t1 = Inr ((), ?t2)"
      using draw_rect_eq [of "?n + 2" 1 3 25 ?t1 "Some ''Play''"] True by simp
    have "cols t < 59"
      using assms True art_fits_lines [OF art] by (auto simp: menu_fits_def)
    then obtain t' where "draw_rect (?n + 2, 34) (3, 25) (Some ''Settings'') ?t2 = Inl (OutOfBounds, t')"
      using draw_rect_fails [of 25 "?n + 2" 34 3 ?t2] by auto
    then show ?thesis
      unfolding menu_draw_steps [OF art]
        ebind_Inr [of "draw_rect (?n + 2, 1) (3, 25) (Some ''Play'')" ?t1, OF p]
      by simp
  qed
qed

lemma engine_init_eq:
  "engine_init t =
     (if tty t
      then Inr (\<lparr>game_state = UNKNOWN\<rparr>,
                t\<lparr>initialised := True, in_curses := True, buf := Map.empty, shown := Map.empty,
                  keypad_on := True, cursor_on := False, echo_on := False, cbreak_on := True,
                  colour_on := True, pairs := (pairs t)(1 \<mapsto> (COLOR_GREEN, COLOR_BLACK))\<rparr>)
      else Inl (SurfaceInitError, t))"
  by (simp add: engine_init_def initscr_def keypad_def curs_set_def noecho_def cbreak_def
      start_color_def init_pair_def curses_call_def need_init_def exc_simps)

lemma engine_play_eq:
  "engine_play asset e t = (case menu_draw asset t of Inl es \<Rightarrow> Some (Inl es) | Inr _ \<Rightarrow> None)"
  by (simp add: engine_play_def busy_wait_eq menu_init_def py_truthy_def split: sum.split)

lemma menu_draw_Inr: "(\<exists>t'. menu_draw (Some s) t = Inr ((), t')) \<longleftrightarrow> menu_fits (readlines s) t"
proof (cases "menu_fits (readlines s) t")
  case True
  then show ?thesis by (simp add: menu_draw_ok)
next
  case False
  then obtain t' where "menu_draw (Some s) t = Inl (OutOfBounds, t')" using menu_draw_fail by blast
  with False show ?thesis by simp
qed

lemma engine_del_cooked:
  "initialised t \<Longrightarrow> in_curses t \<Longrightarrow> cooked (final_state (engine_del t))"
  by (simp add: engine_del_def nocbreak_def echo_def endwin_def keypad_def curses_call_def
      need_init_def cooked_def exc_simps)

subsection \<open>Properties of the menu and the entry point\<close>

text \<open>C9: \<open>MainMenu.draw\<close> either draws the whole menu or raises: with the art file
  missing it raises at once (AssetNotFound, nothing drawn); with art of \<open>n\<close> lines it
  returns exactly when every line fits the width, \<open>n + 5 < LINES\<close> and \<open>59 \<le> COLS\<close>,
  and then the buffer and the screen both hold the art in colour pair 1, the Play button
  at \<open>(n + 2, 1)\<close> and the Settings button at \<open>(n + 2, 34)\<close>; otherwise it raises
  \<open>curses.error\<close> for a write out of bounds.\<close>

theorem menu_draw_result:
  "(case menu_draw asset t of
      Inl (e, t') \<Rightarrow> (asset = None \<and> e = AssetNotFound \<and> t' = t) \<or>
                     (\<exists>s. asset = Some s \<and> \<not> menu_fits (readlines s) t \<and> e = OutOfBounds)
    | Inr (_, t') \<Rightarrow> \<exists>s. asset = Some s \<and> menu_fits (readlines s) t \<and>
                     t' = t\<lparr>buf := menu_picture (readlines s) (buf t),
                            shown := menu_picture (readlines s) (buf t)\<rparr>)"
proof (cases asset)
  case None
  then show ?thesis by (simp add: menu_draw_def exc_simps)
next
  case (Some s)
  show ?thesis
  proof (cases "menu_fits (readlines s) t")
    case True
    then show ?thesis using Some menu_draw_ok by simp
  next
    case False
    then show ?thesis using Some menu_draw_fail [OF False] by auto
  qed
qed

text \<open>C6: The program never prints \<open>Done\<close> and never starts the snake game: the entry
  point either raises or runs forever, because nothing ever sets \<open>chosen_button\<close> and
  the menu's wait spins on it.\<close>

theorem main_never_done: "main asset t = None \<or> (\<exists>e t'. main asset t = Some (Inl (e, t')))"
  by (auto simp: main_def engine_play_eq split: sum.split option.split)

text \<open>C10: The program hangs in the menu's busy wait exactly when a terminal is attached
  and the menu fits the window.\<close>

theorem main_hangs_iff: "main (Some s) t = None \<longleftrightarrow> tty t \<and> menu_fits (readlines s) t"
proof (cases "tty t")
  case False
  then show ?thesis by (simp add: main_def engine_init_eq)
next
  case True
  let ?t1 = "t\<lparr>initialised := True, in_curses := True, buf := Map.empty, shown := Map.empty,
                  keypad_on := True, cursor_on := False, echo_on := False, cbreak_on := True,
                  colour_on := True, pairs := (pairs t)(1 \<mapsto> (COLOR_GREEN, COLOR_BLACK))\<rparr>"
  have "menu_fits (readlines s) ?t1 = menu_fits (readlines s) t" by (simp add: menu_fits_def)
  then show ?thesis
    using True menu_draw_Inr [of s ?t1]
    by (auto simp: main_def engine_init_eq engine_play_eq split: sum.split)
qed

text \<open>C11: When the program ends with an exception, the finaliser \<open>__del__\<close> of the
  engine leaves a terminal that was in cooked mode in cooked mode again.\<close>

theorem main_error_cooked:
  assumes "cooked t" "main asset t = Some (Inl (e, t'))"
  shows "cooked t'"
proof (cases "tty t")
  case False
  then show ?thesis using assms by (simp add: main_def engine_init_eq)
next
  case True
  let ?t1 = "t\<lparr>initialised := True, in_curses := True, buf := Map.empty, shown := Map.empty,
                  keypad_on := True, cursor_on := False, echo_on := False, cbreak_on := True,
                  colour_on := True, pairs := (pairs t)(1 \<mapsto> (COLOR_GREEN, COLOR_BLACK))\<rparr>"
  obtain t2 where m: "menu_draw asset ?t1 = Inl (e, t2)" and t': "t' = final_state (engine_del t2)"
    using True assms(2)
    by (auto simp: main_def engine_init_eq engine_play_eq split: sum.splits)
  have "surf_frame t2 = surf_frame ?t1"
    using keepsD [OF menu_draw_keeps m] by simp
  then have "initialised t2" "in_curses t2" by (simp_all add: surf_frame_def)
  then show ?thesis using t' engine_del_cooked by simp
qed

theorem main_error_cooked_witness:
  "\<exists>e t'. main None (demo_term []) = Some (Inl (e, t')) \<and> cooked t'"
proof -
  have "main None (demo_term []) = Some (Inl (AssetNotFound, final_state (engine_del
      ((demo_term [])\<lparr>initialised := True, in_curses := True, buf := Map.empty, shown := Map.empty,
                  keypad_on := True, cursor_on := False, echo_on := False, cbreak_on := True,
                  colour_on := True, pairs := (pairs (demo_term []))(1 \<mapsto> (COLOR_GREEN, COLOR_BLACK))\<rparr>))))"
    by (simp add: main_def engine_init_eq engine_play_eq menu_draw_def exc_simps demo_term_def)
  moreover have "cooked (demo_term [])" by (simp add: cooked_def demo_term_def)
  ultimately show ?thesis using main_error_cooked by blast
qed

theorem main_hangs_iff_witness:
  "main (Some ''SNAKE\<newline>'') (demo_term []) = None"
proof -
  have "tty (demo_term []) \<and> menu_fits (readlines ''SNAKE\<newline>'') (demo_term [])"
    by (simp add: demo_term_def menu_fits_def)
  then show ?thesis using main_hangs_iff by blast
qed

theorem menu_draw_result_witness:
  "\<exists>t'. menu_draw (Some ''SNAKE\<newline>'') (demo_term []) = Inr ((), t') \<and>
        buf t' (0, 0) = Some (CHR ''S'', color_pair 1) \<and> buf t' (4, 10) = Some (CHR ''l'', 0)"
proof -
  have fit: "menu_fits (readlines ''SNAKE\<newline>'') (demo_term [])"
    by (simp add: menu_fits_def demo_term_def)
  have "case menu_draw (Some ''SNAKE\<newline>'') (demo_term []) of
          Inl (e, t') \<Rightarrow> False
        | Inr (_, t') \<Rightarrow> t' = (demo_term [])\<lparr>buf := menu_picture [''SNAKE\<newline>''] Map.empty,
                                           shown := menu_picture [''SNAKE\<newline>''] Map.empty\<rparr>"
    using menu_draw_result [of "Some ''SNAKE\<newline>''" "demo_term []"] fit
    by (auto simp: demo_term_def split: sum.splits)
  then show ?thesis
    by (auto simp: menu_picture_def put_label_def put_rows_cell put_str_cell box_rows_def
        top_row_def side_row_def floor_row_def bottom_row_def color_pair_def split: sum.splits)
qed

end
