(* ===== verification/Spec2Isabelle.thy ===== *)
theory Spec2Isabelle
  imports Snake_Safety Engine
begin

text \<open>
  \<^bold>\<open>Curses-Arcade: a verification development of \<open>src/snake.py\<close>.\<close>

  \<^bold>\<open>The program.\<close> \<open>src/snake.py\<close> is a terminal snake game on top of Python's
  \<open>curses\<close>. Its parts: the rendering primitive \<open>Widget.draw_rect\<close> (lines 8--35); the
  menu \<open>MainMenu\<close> (38--60), which draws the title art from
  \<open>assets/word_art/main_menu.txt\<close> and two buttons; the engine \<open>CursesGameEngine\<close>
  (63--95), which sets up the terminal, draws the menu and waits for a choice; an empty
  class \<open>Controller\<close> (98--100); the game \<open>Snake\<close> (102--191) with its fixed-rate
  loop; and the entry point (194--197), which builds a \<open>CursesGameEngine\<close>, plays it
  and prints \<open>Done\<close>. The parts share one piece of state, the terminal (the curses
  module and the window \<open>stdscr\<close>); the game also uses the \<open>random\<close> module.

  \<^bold>\<open>The theories.\<close>
  \<^item> \<open>Prelude\<close>: the state-exception monad \<open>('a, 's) exc\<close> in which every method is
    written (\<open>ret\<close>, \<open>throw\<close>, \<open>ebind\<close>, \<open>efor\<close> for a \<open>for\<close> loop, \<open>on_field\<close> to run
    a computation on one field of a larger state, \<open>finally_res\<close> for
    \<open>try/finally\<close>); the error type, one constructor per exception the program can
    raise; Python's \<open>str * int\<close>, \<open>int(a / b)\<close> and \<open>random.randint\<close> (over a stream of
    raw draws); the frame predicate \<open>keeps f m\<close> (\<open>m\<close> leaves the view \<open>f\<close> of the
    state alone on every outcome) with its rules in the collection \<open>keeps_intros\<close>, and
    the evaluation rules in \<open>exc_simps\<close>.
  \<^item> \<open>Surface\<close>: the terminal, the spec's \<open>TerminalSurface\<close> (section 6), modelled from
    the spec because \<open>curses\<close> is a library: the record \<open>surface\<close> (size, buffer,
    physical screen, tty modes, typed keys) and the calls the program makes
    (\<open>initscr\<close>, \<open>endwin\<close>, \<open>cbreak\<close>, \<open>echo\<close>, \<open>keypad\<close>, \<open>nodelay\<close>, \<open>addstr\<close>,
    \<open>addch\<close>, \<open>clear\<close>, \<open>refresh\<close>, \<open>getch\<close>, colours). A write outside
    \<open>[0, LINES) \<times> [0, COLS)\<close> raises \<open>OutOfBounds\<close> (the spec's rule; no clipping,
    no wrapping); a module function before \<open>initscr\<close> raises \<open>CursesError\<close>. A
    blocking \<open>getch\<close> with no key pending waits for ever: it reports \<open>Blocked\<close>,
    which the play loop turns into a run that never returns (\<open>None\<close>). The keys are
    those typed before they are read; a run is that of a player who types no more.
  \<^item> \<open>Snake\<close>: class \<open>Snake\<close>. The record \<open>snake_game\<close> holds the fields and the
    surface and random state; \<open>create_screen\<close>, \<open>update_logic\<close> (in the code's
    segments \<open>ensure_food\<close>, \<open>read_input\<close>, \<open>move\<close>, \<open>eat\<close>), \<open>draw_screen\<close>,
    \<open>close_screen\<close> are the methods; \<open>tick\<close> is one pass of \<open>play\<close>'s loop,
    \<open>game_loop\<close> the loop (\<^theory_text>\<open>partial_function (option)\<close>, \<open>None\<close> if it never
    ends) and \<open>snake_play\<close> the whole \<open>play\<close> with its \<open>finally\<close>.
  \<^item> \<open>Snake_Safety\<close>: type soundness and the error paths of the game, over the
    definitions of \<open>Snake\<close>; \<open>snake_wf\<close> is the typing of the object's fields.
  \<^item> \<open>Widget\<close>: \<open>draw_rect\<close> with its four row strings (\<open>top_row\<close>,
    \<open>bottom_row\<close>, \<open>floor_row\<close>, \<open>side_row\<close>) and the loop body \<open>rect_side\<close>; the
    picture \<open>box_rows\<close> it paints.
  \<^item> \<open>Engine\<close>: \<open>MainMenu\<close> (\<open>main_menu\<close>, \<open>menu_init\<close>, \<open>menu_draw\<close>, with
    \<open>readlines\<close> for the art file), \<open>CursesGameEngine\<close> (\<open>engine_init\<close>,
    \<open>engine_play\<close> with the busy wait \<open>busy_wait\<close>, \<open>engine_del\<close>), and \<open>main\<close>, the
    entry point followed by the finaliser that runs at interpreter exit.

  \<^bold>\<open>What is proved.\<close>
  \<^item> The game step (\<open>Snake\<close>): on a well-formed state \<open>update_logic\<close> refines the
    spec's per-tick algorithm \<open>tick_spec\<close>, and returns \<open>False\<close> exactly when the new
    head fails the bound check (evaluated left to right with Python's short-circuit,
    \<open>bound_check\<close>); moving and growing, cell by cell; in the reachable states of the
    loop (the inductive \<open>snake_reach\<close>) the body is a path of unit steps
    (\<open>snake_chain\<close>, by rule induction); \<open>draw_screen\<close> paints exactly the abstract
    picture \<open>render\<close>.
  \<^item> Type soundness and errors (\<open>Snake_Safety\<close>): from a well-formed object the
    play loop ends with no exception but a write out of bounds (progress and
    preservation of \<open>snake_wf\<close> over a pass, lifted to the loop by its fixpoint
    induction); an ill-formed object raises \<open>IndexError\<close>, \<open>KeyError\<close> or
    \<open>AttributeError\<close>, one per field; a terminal with no rows or columns ends the game
    with \<open>ValueError\<close>; after every pass the screen shows exactly the updated state.
  \<^item> Termination and teardown: the loop of \<open>play\<close> ends from every state in nodelay
    mode, and never ends in blocking mode with no key typed; \<open>play\<close>, whose
    \<open>create_screen\<close> sets nodelay, always returns and leaves a cooked terminal cooked on
    every path. The measure is lexicographic: the number of keys still pending, then
    the distance of the head from the bound in its facing. A pass either reads a key,
    or with no key pending moves the head one cell toward the bound. No fuel bound is
    needed. The loop's fixpoint induction is packaged once as \<open>game_loop_rule\<close>.
  \<^item> The widget: \<open>draw_rect\<close> paints exactly rows \<open>top .. top + height\<close> and columns
    \<open>left .. left + width - 1\<close> plus the label, and raises when the rectangle does not
    fit.
  \<^item> The menu and the entry point: the exact picture and success condition of
    \<open>MainMenu.draw\<close>; the busy wait never ends, so the program never prints
    \<open>Done\<close> and never reaches the snake game, and hangs exactly when the menu fits;
    on an exception the finaliser restores a cooked terminal.
  \<^item> Across components (this theory): the engine's finaliser and the game's
    \<open>close_screen\<close> are interchangeable teardowns.
  \<^item> Where the code and the spec part ways, theorems pin the code's behaviour: a
    game left alone ends in \<open>curses.error\<close> (the bound admits column \<open>COLS\<close>);
    growth duplicates the first segment after the move, and compares the food with the
    pre-move head (\<open>update_logic_grow\<close>, \<open>update_logic_move\<close>); the score never
    changes; the failure of \<open>initscr\<close> is masked by \<open>nocbreak\<close> in the \<open>finally\<close>;
    one pending key is read per pass and the others stay queued
    (\<open>update_logic_refines\<close>); the rectangle covers \<open>height + 1\<close> rows
    (\<open>draw_rect_paints\<close>).

  \<^bold>\<open>Not modelled.\<close> \<open>time.sleep\<close> (no effect on the state); the class
  \<open>Controller\<close> (no state, no operation); the abstract \<open>Widget.draw\<close> (no body); the
  content of the art file, which is an input (\<open>None\<close> when the file is missing);
  colours, which are recorded as attributes, not rendered; the cursor position and the
  meaning of control characters in written strings, since the spec's \<open>write_text\<close>
  gives them none (a newline is written as a cell); an exception raised inside
  \<open>__init__\<close> after \<open>initscr\<close>, which the model cannot produce because every curses
  call after \<open>initscr\<close> succeeds.
\<close>

section \<open>Properties spanning the components\<close>

text \<open>C13: The two teardown routines, \<open>CursesGameEngine.__del__\<close> and
  \<open>Snake.close_screen\<close>, call the same curses functions in a different order, and are
  interchangeable: on any terminal they leave the same tty modes, and on a terminal in
  curses mode both return normally and leave the same terminal.\<close>

theorem teardown_paths_agree:
  assumes "stdscr g"
  shows "tty_modes (surf (final_state (close_screen g))) = tty_modes (final_state (engine_del (surf g))) \<and>
         (initialised (surf g) \<and> in_curses (surf g) \<longrightarrow>
            (\<exists>t'. engine_del (surf g) = Inr ((), t') \<and> close_screen g = Inr ((), g\<lparr>surf := t'\<rparr>)))"
  using assms
  by (simp add: close_screen_def engine_del_def on_surf_def win_def nocbreak_def keypad_def echo_def
      endwin_def curses_call_def need_init_def tty_modes_def exc_simps)

theorem teardown_paths_agree_witness:
  "\<exists>t'. engine_del (surf (demo_game [] (sconst 3))) = Inr ((), t') \<and>
        close_screen (demo_game [] (sconst 3)) = Inr ((), (demo_game [] (sconst 3))\<lparr>surf := t'\<rparr>)"
  using teardown_paths_agree [of "demo_game [] (sconst 3)"]
  by (simp add: demo_game_def snake_init_def demo_term_def)

end
